(* ===== verification/Prelude.thy ===== *)
theory Prelude
  imports Main "HOL-Library.Word"
begin

text \<open>
  Shared vocabulary of the development: machine integer types, the status and error codes of
  \<^verbatim>\<open>common/inc/sgx_error.h\<close> and \<^verbatim>\<open>common/inc/tlibc/errno.h\<close>, the page arithmetic macros of
  \<^verbatim>\<open>common/inc/internal/util.h\<close>, the way \<^verbatim>\<open>abort()\<close> is modelled, linked chains over an
  explicit next-pointer store, and reachability of a transition system with the locale that turns
  an inductive invariant into a fact about every reachable state.
\<close>

unbundle bit_operations_syntax

section \<open>Machine integers, pointers and results\<close>

type_synonym u8 = "8 word"
type_synonym u16 = "16 word"
type_synonym u32 = "32 word"
type_synonym u64 = "64 word"

text \<open>A pointer and a \<^verbatim>\<open>size_t\<close> are 64-bit words (the x86-64 build); \<open>NULL\<close> is 0.\<close>

type_synonym addr = "64 word"

abbreviation (input) NULL :: addr where
  "NULL \<equiv> 0"

abbreviation (input) SIZE_MAX :: u64 where
  "SIZE_MAX \<equiv> - 1"

text \<open>
  \<^verbatim>\<open>abort()\<close> (\<^verbatim>\<open>sdk/trts/linux/trts_pic.S\<close>) never returns: it marks the enclave crashed and
  executes \<^verbatim>\<open>ud2\<close>. A computation that may abort returns a sum whose left side is the fault.
\<close>

datatype fault = Abort

type_synonym 'a exec = "fault + 'a"

definition exec_bind :: "'a exec \<Rightarrow> ('a \<Rightarrow> 'b exec) \<Rightarrow> 'b exec" where
  "exec_bind m f = (case m of Inl e \<Rightarrow> Inl e | Inr a \<Rightarrow> f a)"

lemma exec_bind_simps [simp]:
  "exec_bind (Inl e) f = Inl e"
  "exec_bind (Inr a) f = f a"
  by (simp_all add: exec_bind_def)

lemma exec_bind_Inr_conv [simp]:
  "exec_bind m f = Inr b \<longleftrightarrow> (\<exists>a. m = Inr a \<and> f a = Inr b)"
  by (cases m) auto

text \<open>Sequencing where a step may also not return (\<open>None\<close>).\<close>

definition xbind :: "'a exec option \<Rightarrow> ('a \<Rightarrow> 'b exec option) \<Rightarrow> 'b exec option" where
  "xbind m f = (case m of None \<Rightarrow> None | Some (Inl e) \<Rightarrow> Some (Inl e) | Some (Inr a) \<Rightarrow> f a)"

lemma xbind_simps [simp]:
  "xbind None f = None"
  "xbind (Some (Inl e)) f = Some (Inl e)"
  "xbind (Some (Inr a)) f = f a"
  by (simp_all add: xbind_def)

lemma xbind_Inr_conv [simp]:
  "xbind m f = Some (Inr b) \<longleftrightarrow> (\<exists>a. m = Some (Inr a) \<and> f a = Some (Inr b))"
  by (auto simp: xbind_def split: option.split sum.split)

lemma map_sum_Inr_iff: "map_sum id f x = Inr y \<longleftrightarrow> (\<exists>z. x = Inr z \<and> y = f z)"
  by (cases x) auto

text \<open>The status codes the modelled functions return.\<close>

datatype sgx_status =
    SGX_SUCCESS
  | SGX_ERROR_UNEXPECTED
  | SGX_ERROR_INVALID_PARAMETER
  | SGX_ERROR_OUT_OF_MEMORY
  | SGX_ERROR_INVALID_STATE
  | SGX_PTHREAD_EXIT
  | SGX_ERROR_INVALID_FUNCTION
  | SGX_ERROR_ENCLAVE_CRASHED
  | SGX_ERROR_ECALL_NOT_ALLOWED
  | SGX_ERROR_STACK_OVERRUN
  | SGX_ERROR_MAC_MISMATCH
  | SGX_ERROR_UPDATE_NEEDED
  | SGX_STATUS u32 \<comment> \<open>any other code an ECALL body or the untrusted side hands back\<close>

text \<open>The errno values of the trusted libc (\<^verbatim>\<open>common/inc/tlibc/errno.h\<close>).\<close>

abbreviation (input) EPERM :: int where "EPERM \<equiv> 1"
abbreviation (input) ENOMEM :: int where "ENOMEM \<equiv> 12"
abbreviation (input) EBUSY :: int where "EBUSY \<equiv> 16"
abbreviation (input) EINVAL :: int where "EINVAL \<equiv> 22"
abbreviation (input) EDEADLK :: int where "EDEADLK \<equiv> 35"

section \<open>Lists\<close>

lemma concat_map_concat: "concat (map f (concat xss)) = concat (map (\<lambda>xs. concat (map f xs)) xss)"
  by (induction xss) simp_all

section \<open>Page arithmetic\<close>

abbreviation (input) SE_PAGE_SIZE :: u64 where "SE_PAGE_SIZE \<equiv> 0x1000"
abbreviation (input) SE_PAGE_SHIFT :: nat where "SE_PAGE_SHIFT \<equiv> 12"
abbreviation (input) SE_GUARD_PAGE_SIZE :: u64 where "SE_GUARD_PAGE_SIZE \<equiv> 0x10000"
abbreviation (input) STATIC_STACK_SIZE :: u64 where "STATIC_STACK_SIZE \<equiv> 688"

definition TRIM_TO_PAGE :: "u64 \<Rightarrow> u64" where
  "TRIM_TO_PAGE x = x AND NOT (SE_PAGE_SIZE - 1)"

definition ROUND_TO :: "u64 \<Rightarrow> u64 \<Rightarrow> u64" where
  "ROUND_TO x align = (x + (align - 1)) AND NOT (align - 1)"

definition IS_PAGE_ALIGNED :: "u64 \<Rightarrow> bool" where
  "IS_PAGE_ALIGNED x \<longleftrightarrow> x AND (SE_PAGE_SIZE - 1) = 0"

lemma unat_u64: "unat (x :: u64) < 2 ^ 64"
  using unsigned_less [of x] by simp

lemma unat_u32: "unat (x :: u32) < 2 ^ 32"
  using unsigned_less [of x] by simp

lemma unat_u16: "unat (x :: u16) < 2 ^ 16"
  using unsigned_less [of x] by simp

lemma less_u16: "n < unat (x :: u16) \<Longrightarrow> n < 65536"
  using unat_u16 [of x] by simp

text \<open>Counting up and down without wrap-around.\<close>

lemma unat_inc: "unat x < 2 ^ LENGTH('a) - 1 \<Longrightarrow> unat (x + 1 :: 'a::len word) = unat x + 1"
proof -
  assume "unat x < 2 ^ LENGTH('a) - 1"
  then have "unat x + unat (1 :: 'a word) < 2 ^ LENGTH('a)" by simp
  then have "unat (x + 1) = unat x + unat (1 :: 'a word)"
    by (rule iffD1 [OF unat_add_lem])
  then show ?thesis by simp
qed

lemma unat_inc_not_max: "x \<noteq> - 1 \<Longrightarrow> unat (x + 1 :: 'a::len word) = unat x + 1"
  using unatSuc [of x] by (simp add: add.commute [of 1] add_eq_0_iff2)

lemma unat_dec: "x \<noteq> 0 \<Longrightarrow> unat (x - 1 :: 'a::len word) = unat x - 1"
  by (rule unat_minus_one)

lemma dec_eq_0_iff: "x - 1 = (0 :: 'a::len word) \<longleftrightarrow> unat x = 1"
proof
  assume "x - 1 = 0"
  then have "x = 1" by simp
  then show "unat x = 1" by simp
next
  assume "unat x = 1"
  then have "x = 1" by (metis unat_1 word_unat_eq_iff)
  then show "x - 1 = 0" by simp
qed

text \<open>Masking low bits, read on naturals.\<close>

lemma unat_and_mask: "unat (x AND mask n :: 'a::len word) = unat x mod 2 ^ n"
proof -
  have "unat (x AND mask n) = take_bit n (unat x)"
    by (simp only: take_bit_eq_mask [symmetric] unsigned_take_bit_eq)
  then show ?thesis by (simp only: take_bit_eq_mod)
qed

lemma and_mask_split: "(x AND mask n :: 'a::len word) + (x AND NOT (mask n)) = x"
proof -
  have "(x AND mask n) AND (x AND NOT (mask n)) = 0"
    by (rule bit_eqI) (auto simp: bit_simps)
  then have "(x AND mask n) + (x AND NOT (mask n)) = (x AND mask n) OR (x AND NOT (mask n))"
    by (rule disjunctive_add_eq_or)
  also have "\<dots> = x"
    by (rule bit_eqI) (auto simp: bit_simps)
  finally show ?thesis .
qed

lemma unat_and_not_mask: "unat (x AND NOT (mask n) :: 'a::len word) = unat x - unat x mod 2 ^ n"
proof -
  have "x AND NOT (mask n) = x - (x AND mask n)"
    using and_mask_split [of x n] by (simp add: algebra_simps)
  moreover have "x AND mask n \<le> x"
    by (rule word_and_le2)
  ultimately have "unat (x AND NOT (mask n)) = unat x - unat (x AND mask n)"
    by (simp add: unat_sub)
  then show ?thesis by (simp add: unat_and_mask)
qed

lemma unat_TRIM_TO_PAGE: "unat (TRIM_TO_PAGE x) = unat x - unat x mod 4096"
  using unat_and_not_mask [of x 12] by (simp add: TRIM_TO_PAGE_def mask_eq_exp_minus_1)

lemma IS_PAGE_ALIGNED_iff: "IS_PAGE_ALIGNED x \<longleftrightarrow> unat x mod 4096 = 0"
  using unat_and_mask [of x 12]
  by (simp only: IS_PAGE_ALIGNED_def) (simp add: mask_eq_exp_minus_1 flip: unat_eq_0)

section \<open>Linked chains in a next-pointer store\<close>

text \<open>
  \<open>chain nx p xs\<close>: following the next-pointer store \<open>nx\<close> from \<open>p\<close> visits exactly the non-null
  nodes \<open>xs\<close>, in that order, and then reaches \<open>NULL\<close>.
\<close>

fun chain :: "(addr \<Rightarrow> addr) \<Rightarrow> addr \<Rightarrow> addr list \<Rightarrow> bool" where
  "chain nx p [] \<longleftrightarrow> p = NULL"
| "chain nx p (x # xs) \<longleftrightarrow> p = x \<and> x \<noteq> NULL \<and> chain nx (nx x) xs"

lemma chain_NULL [simp]: "chain nx NULL xs \<longleftrightarrow> xs = []"
  by (cases xs) auto

lemma chain_not_NULL: "p \<noteq> NULL \<Longrightarrow> chain nx p xs \<longleftrightarrow> (\<exists>ys. xs = p # ys \<and> chain nx (nx p) ys)"
  by (cases xs) auto

lemma chain_hd: "chain nx p xs \<Longrightarrow> p = (case xs of [] \<Rightarrow> NULL | x # _ \<Rightarrow> x)"
  by (cases xs) auto

lemma chain_nonnull: "chain nx p xs \<Longrightarrow> NULL \<notin> set xs"
  by (induction xs arbitrary: p) auto

lemma chain_unique: "chain nx p xs \<Longrightarrow> chain nx p ys \<Longrightarrow> xs = ys"
proof (induction xs arbitrary: p ys)
  case Nil
  then show ?case by simp
next
  case (Cons x xs)
  then obtain ys' where "ys = x # ys'" "chain nx (nx x) ys'"
    by (cases ys) auto
  with Cons show ?case by auto
qed

lemma chain_append: "chain nx p (xs @ ys) \<Longrightarrow> \<exists>q. chain nx q ys"
  by (induction xs arbitrary: p) auto

lemma chain_suffix: "chain nx p (xs @ y # ys) \<Longrightarrow> chain nx y (y # ys)"
  using chain_append [of nx p xs "y # ys"] by auto

lemma chain_distinct: "chain nx p xs \<Longrightarrow> distinct xs"
proof (induction xs arbitrary: p)
  case Nil
  show ?case by simp
next
  case (Cons x xs)
  have "x \<notin> set xs"
  proof
    assume "x \<in> set xs"
    then obtain us vs where xs: "xs = us @ x # vs" by (auto simp: in_set_conv_decomp)
    with Cons.prems have "chain nx x (x # vs)"
      using chain_suffix [of nx "nx x" us x vs] by simp
    then have "chain nx (nx x) vs" by simp
    moreover have "chain nx (nx x) xs" using Cons.prems by simp
    ultimately have "vs = xs" by (rule chain_unique)
    with xs show False by simp
  qed
  with Cons show ?case by auto
qed

lemma chain_upd_other [simp]: "z \<notin> set xs \<Longrightarrow> chain (nx(z := v)) p xs = chain nx p xs"
  by (induction xs arbitrary: p) auto

lemma chain_cong: "(\<And>x. x \<in> set xs \<Longrightarrow> nx x = nx' x) \<Longrightarrow> chain nx p xs = chain nx' p xs"
  by (induction xs arbitrary: p) auto

text \<open>Linking a fresh last node behind a non-empty chain.\<close>

lemma chain_snoc:
  "chain nx p xs \<Longrightarrow> xs \<noteq> [] \<Longrightarrow> y \<noteq> NULL \<Longrightarrow> y \<notin> set xs \<Longrightarrow>
   chain (nx(y := NULL, last xs := y)) p (xs @ [y])"
proof (induction xs arbitrary: p)
  case Nil
  then show ?case by simp
next
  case (Cons x xs)
  show ?case
  proof (cases "xs = []")
    case True
    with Cons.prems show ?thesis by auto
  next
    case False
    have "x \<noteq> last xs"
      using chain_distinct [OF Cons.prems(1)] False by auto
    moreover have "chain (nx(y := NULL, last xs := y)) (nx x) (xs @ [y])"
      using Cons.prems False by (intro Cons.IH) auto
    moreover have "x \<noteq> y" using Cons.prems by auto
    ultimately show ?thesis using Cons.prems False
      by (simp add: fun_upd_other del: fun_upd_apply)
  qed
qed

text \<open>Unlinking the node behind \<open>t\<close>.\<close>

lemma chain_unlink:
  "chain nx p (us @ t # e # vs) \<Longrightarrow> chain (nx(t := nx e)) p (us @ t # vs)"
proof (induction us arbitrary: p)
  case Nil
  then have "distinct (t # e # vs)" using chain_distinct by fastforce
  with Nil show ?case by (simp add: fun_upd_same fun_upd_other del: fun_upd_apply)
next
  case (Cons u us)
  then have "u \<noteq> t" using chain_distinct [OF Cons.prems] by auto
  with Cons show ?case by (simp add: fun_upd_other del: fun_upd_apply)
qed

text \<open>A chain cannot be longer than the address space.\<close>

lemma distinct_addr_length:
  assumes "distinct (xs :: addr list)" "NULL \<notin> set xs"
  shows "length xs < 2 ^ 64"
proof -
  have "card (insert NULL (set xs)) \<le> card (UNIV :: addr set)" by (rule card_mono) auto
  with assms show ?thesis by (simp add: card_insert_if distinct_card card_word)
qed

section \<open>Transition systems and their invariants\<close>

inductive reachable :: "('s \<Rightarrow> bool) \<Rightarrow> ('s \<Rightarrow> 's \<Rightarrow> bool) \<Rightarrow> 's \<Rightarrow> bool"
  for init :: "'s \<Rightarrow> bool" and step :: "'s \<Rightarrow> 's \<Rightarrow> bool" where
  reach_init: "init s \<Longrightarrow> reachable init step s"
| reach_step: "reachable init step s \<Longrightarrow> step s t \<Longrightarrow> reachable init step t"

text \<open>The obligations of an inductive invariant, and what they buy.\<close>

locale invariant_system =
  fixes init :: "'s \<Rightarrow> bool"
    and step :: "'s \<Rightarrow> 's \<Rightarrow> bool"
    and inv :: "'s \<Rightarrow> bool"
  assumes inv_init: "init s \<Longrightarrow> inv s"
    and inv_step: "inv s \<Longrightarrow> step s t \<Longrightarrow> inv t"
begin

lemma reachable_inv: "reachable init step s \<Longrightarrow> inv s"
  by (induction rule: reachable.induct) (auto intro: inv_init inv_step)

lemma runs_inv: "inv s \<Longrightarrow> step\<^sup>*\<^sup>* s t \<Longrightarrow> inv t"
  by (rotate_tac, induction rule: rtranclp_induct) (auto intro: inv_step)

end

end
