(* ===== verification/Memory.thy ===== *)
theory Memory
  imports Prelude
begin

text \<open>
  Byte-addressed memory of 64-bit addresses, for the parts of the runtime that work on raw memory: little
  endian loads and stores of machine words, \<^verbatim>\<open>memset\<close>, and the copying of byte strings. Addresses wrap
  around at \<open>2 ^ 64\<close>; the distance \<open>x - a\<close> of two addresses is taken on words, so the laws below need no
  assumption about wrap-around.
\<close>

type_synonym mem = "addr \<Rightarrow> u8"

section \<open>Loads, stores and fills\<close>

fun load_le :: "nat \<Rightarrow> mem \<Rightarrow> addr \<Rightarrow> 'a::len word" where
  "load_le 0 m a = 0"
| "load_le (Suc k) m a = ucast (m a) OR push_bit 8 (load_le k m (a + 1))"

definition store_le :: "nat \<Rightarrow> mem \<Rightarrow> addr \<Rightarrow> 'a::len word \<Rightarrow> mem" where
  "store_le k m a v = (\<lambda>x. if x - a < word_of_nat k then ucast (drop_bit (8 * unat (x - a)) v) else m x)"

abbreviation load64 :: "mem \<Rightarrow> addr \<Rightarrow> u64" where "load64 \<equiv> load_le 8"
abbreviation store64 :: "mem \<Rightarrow> addr \<Rightarrow> u64 \<Rightarrow> mem" where "store64 \<equiv> store_le 8"
abbreviation load32 :: "mem \<Rightarrow> addr \<Rightarrow> u32" where "load32 \<equiv> load_le 4"
abbreviation store32 :: "mem \<Rightarrow> addr \<Rightarrow> u32 \<Rightarrow> mem" where "store32 \<equiv> store_le 4"

definition mem_fill :: "mem \<Rightarrow> addr \<Rightarrow> u64 \<Rightarrow> u8 \<Rightarrow> mem" where
  "mem_fill m a n v = (\<lambda>x. if x - a < n then v else m x)"

definition put_bytes :: "mem \<Rightarrow> addr \<Rightarrow> u8 list \<Rightarrow> mem" where
  "put_bytes m a bs = (\<lambda>x. if x - a < word_of_nat (length bs) then bs ! unat (x - a) else m x)"

definition get_bytes :: "mem \<Rightarrow> addr \<Rightarrow> nat \<Rightarrow> u8 list" where
  "get_bytes m a n = map (\<lambda>i. m (a + word_of_nat i)) [0 ..< n]"

section \<open>Laws\<close>

lemma bit_load_le:
  "bit (load_le k m a :: 'a::len word) n \<longleftrightarrow>
   n < LENGTH('a) \<and> n < 8 * k \<and> bit (m (a + word_of_nat (n div 8))) (n mod 8)"
proof (induction k arbitrary: a n)
  case 0
  show ?case by simp
next
  case (Suc k)
  show ?case
  proof (cases "n < 8")
    case True
    then show ?thesis by (auto simp: bit_simps)
  next
    case False
    then have d: "a + 1 + word_of_nat ((n - 8) div 8) = a + word_of_nat (n div 8)"
      and r: "(n - 8) mod 8 = n mod 8"
      by (simp_all add: le_div_geq le_mod_geq)
    show ?thesis using False
      by (auto simp: bit_simps Suc.IH [of "a + 1" "n - 8"] d r dest: bit_imp_le_length)
  qed
qed

lemma less_word_of_nat: "x < (word_of_nat k :: addr) \<Longrightarrow> unat x < k"
proof -
  assume "x < word_of_nat k"
  then have "unat x < k mod 2 ^ 64" by (simp add: word_less_nat_alt unat_of_nat)
  then show ?thesis using mod_less_eq_dividend [of k "2 ^ 64"] by linarith
qed

lemma less_word_of_nat_iff: "k \<le> 2 ^ 32 \<Longrightarrow> x < (word_of_nat k :: addr) \<longleftrightarrow> unat x < k"
  by (simp add: word_less_nat_alt unat_of_nat)

lemma load_store_same:
  assumes "LENGTH('a) = 8 * k" "k \<le> 2 ^ 32"
  shows "load_le k (store_le k m a v) a = (v :: 'a::len word)"
proof (rule bit_word_eqI)
  fix n
  assume n: "n < LENGTH('a)"
  then have "n div 8 < k" using assms by auto
  then have u: "unat (word_of_nat (n div 8) :: addr) = n div 8"
    using assms(2) by (simp add: unat_of_nat)
  have c: "word_of_nat (n div 8) < (word_of_nat k :: addr)"
    using \<open>n div 8 < k\<close> by (simp only: less_word_of_nat_iff [OF assms(2)] u)
  have "store_le k m a v (a + word_of_nat (n div 8)) = ucast (drop_bit (8 * (n div 8)) v)"
    by (simp only: store_le_def add_diff_cancel_left' c if_True u)
  moreover have "8 * (n div 8) + n mod 8 = n" by simp
  ultimately show "bit (load_le k (store_le k m a v) a :: 'a word) n = bit v n"
    using n assms(1) by (auto simp: bit_load_le bit_simps)
qed

text \<open>Two ranges of bytes are disjoint.\<close>

definition apart :: "addr \<Rightarrow> nat \<Rightarrow> addr \<Rightarrow> nat \<Rightarrow> bool" where
  "apart a n b k \<longleftrightarrow> (\<forall>i < n. k \<le> unat (a + word_of_nat i - b))"

lemma load_cong:
  "(\<And>i. i < k \<Longrightarrow> m (a + word_of_nat i) = m' (a + word_of_nat i)) \<Longrightarrow>
   (load_le k m a :: 'a::len word) = load_le k m' a"
proof (induction k arbitrary: a)
  case (Suc k)
  have "m a = m' a" using Suc.prems [of 0] by simp
  moreover have "(load_le k m (a + 1) :: 'a word) = load_le k m' (a + 1)"
  proof (rule Suc.IH)
    fix i
    assume "i < k"
    with Suc.prems [of "Suc i"] show "m (a + 1 + word_of_nat i) = m' (a + 1 + word_of_nat i)"
      by (simp add: add.assoc)
  qed
  ultimately show ?case by simp
qed simp

lemma unat_swap: "a \<noteq> b \<Longrightarrow> unat (a - b) = 2 ^ 64 - unat (b - a)" for a b :: addr
proof -
  assume ne: "a \<noteq> b"
  have "(unat (a - b) + unat (b - a)) mod 2 ^ 64 = 0"
    using unat_word_ariths(1) [of "a - b" "b - a"] by simp
  moreover have "0 < unat (a - b)" using ne by (simp add: word_neq_0_conv unat_gt_0)
  ultimately show ?thesis
    using unat_u64 [of "a - b"] unat_u64 [of "b - a"] by (simp add: mod_if split: if_splits)
qed

lemma apartI:
  assumes "n \<le> unat (b - a)" "k \<le> unat (a - b)"
  shows "apart a n b k"
  unfolding apart_def
proof (intro allI impI)
  fix i
  assume i: "i < n"
  with assms(1) have ne: "a \<noteq> b" by auto
  note unat_swap [OF ne]
  with i assms(1) have lt: "unat (a - b) + i < 2 ^ 64" using unat_u64 [of "b - a"] by linarith
  have s: "a + word_of_nat i - b = (a - b) + word_of_nat i" by simp
  have "unat (word_of_nat i :: addr) = i" using lt by (simp add: unat_of_nat)
  with lt have "unat (a + word_of_nat i - b) = unat (a - b) + i"
    unfolding s unat_word_ariths(1) by simp
  with assms(2) show "k \<le> unat (a + word_of_nat i - b)" by simp
qed

text \<open>The same on natural numbers, for ranges that do not wrap around.\<close>

lemma apart_above:
  assumes "unat b + k \<le> unat a" "unat a + n \<le> 2 ^ 64"
  shows "apart a n b k"
proof (cases "a = b")
  case True
  with assms(1) show ?thesis by (simp add: apart_def)
next
  case False
  have "unat (a - b) = unat a - unat b" using assms(1) by (simp add: unat_sub word_le_nat_alt)
  with assms unat_swap [of b a] False show ?thesis by (intro apartI) auto
qed

lemma apart_below:
  assumes "unat a + n \<le> unat b" "unat b + k \<le> 2 ^ 64"
  shows "apart a n b k"
proof (cases "a = b")
  case True
  with assms(1) show ?thesis by (simp add: apart_def)
next
  case False
  have "unat (b - a) = unat b - unat a" using assms(1) by (simp add: unat_sub word_le_nat_alt)
  with assms unat_swap [of a b] False show ?thesis by (intro apartI) auto
qed

lemma load_store_other: "apart a n b k \<Longrightarrow> load_le n (store_le k m b v) a = load_le n m a"
  by (rule load_cong) (auto simp: apart_def store_le_def dest!: less_word_of_nat)

lemma load_fill_other: "apart a n b (unat k) \<Longrightarrow> load_le n (mem_fill m b k v) a = load_le n m a"
  by (rule load_cong) (auto simp: apart_def mem_fill_def word_less_nat_alt)

text \<open>The \<open>n\<close> bytes from \<open>a\<close>.\<close>

definition window :: "addr \<Rightarrow> nat \<Rightarrow> addr set" where
  "window a n = {x. unat (x - a) < n}"

lemma load_window: "(\<And>x. x \<in> window a k \<Longrightarrow> m x = m' x) \<Longrightarrow> (load_le k m a :: 'a::len word) = load_le k m' a"
  by (rule load_cong) (auto simp: window_def unat_of_nat intro: le_less_trans [OF mod_less_eq_dividend])

lemma window_mono: "x \<in> window a n \<Longrightarrow> n \<le> k \<Longrightarrow> x \<in> window a k"
  by (simp add: window_def)

lemma window_shift: "x \<in> window (a + d) n \<Longrightarrow> unat d + n \<le> k \<Longrightarrow> x \<in> window a k"
proof -
  assume x: "x \<in> window (a + d) n" and k: "unat d + n \<le> k"
  have "x - a = (x - (a + d)) + d" by simp
  then have "unat (x - a) \<le> unat (x - (a + d)) + unat d"
    by (metis unat_word_ariths(1) mod_less_eq_dividend)
  with x k show ?thesis by (simp add: window_def)
qed

lemma store_outside: "x \<notin> window a k \<Longrightarrow> store_le k m a v x = m x"
  by (auto simp: window_def store_le_def dest: less_word_of_nat)

lemma windows_disjoint_apart: "apart a n b k \<Longrightarrow> window a n \<inter> window b k = {}"
proof -
  assume ap: "apart a n b k"
  have "x \<notin> window b k" if "x \<in> window a n" for x
  proof -
    have "x = a + word_of_nat (unat (x - a))" by (simp add: of_nat_unat)
    with ap that show ?thesis
      unfolding apart_def window_def by (metis mem_Collect_eq not_less)
  qed
  then show ?thesis by blast
qed

lemma windows_disjointI:
  "n \<le> unat (b - a) \<Longrightarrow> k \<le> unat (a - b) \<Longrightarrow> window a n \<inter> window b k = {}"
  by (rule windows_disjoint_apart [OF apartI])

lemma window_nat:
  assumes "unat a + n \<le> 2 ^ 64"
  shows "x \<in> window a n \<longleftrightarrow> unat a \<le> unat x \<and> unat x < unat a + n"
  using assms unat_sub_if_size [of x a] unat_u64 [of x] unat_u64 [of a]
  by (auto simp: window_def word_size split: if_splits)

text \<open>Loads of words over stores and fills, as rewrite rules on distances of addresses.\<close>

lemma push_drop_bit_le: "unat (push_bit n (drop_bit n x) :: u64) \<le> unat x"
proof -
  have "push_bit n (drop_bit n x) = x AND NOT (mask n)"
    by (rule bit_eqI) (auto simp: bit_simps)
  then show ?thesis by (simp add: unat_and_not_mask)
qed

named_theorems mem_simps \<open>loads of words over stores and fills\<close>

lemma load64_store64_same [mem_simps]: "load64 (store64 m a v) a = v"
  by (rule load_store_same) simp_all

lemma load64_store64_other [mem_simps]:
  "8 \<le> unat (b - a) \<Longrightarrow> 8 \<le> unat (a - b) \<Longrightarrow> load64 (store64 m b v) a = load64 m a"
  by (rule load_store_other [OF apartI])

lemma load64_fill_other [mem_simps]:
  "8 \<le> unat (b - a) \<Longrightarrow> unat n \<le> unat (a - b) \<Longrightarrow> load64 (mem_fill m b n v) a = load64 m a"
  by (rule load_fill_other [OF apartI])

end
