(* ===== verification/Trts_Layout.thy ===== *)
theory Trts_Layout
  imports Prelude "HOL-Library.Monad_Syntax"
begin

text \<open>
  The layout table of the enclave's metadata and what the trusted runtime derives from it
  (\<^verbatim>\<open>sdk/trts/trts_util.cpp\<close>, \<^verbatim>\<open>sdk/trts/trts_add_trim.cpp\<close>): sizes of heap and reserved memory, the address
  ranges whose pages may be added at run time, and the operations that accept, trim and hand over
  pages. EACCEPT is a parameter \<open>eaccept flags page\<close> (0 for success); the operations return the pages
  they accepted, in order.
\<close>

section \<open>Data\<close>

text \<open>
  \<^verbatim>\<open>layout_t\<close> is a union: an entry and a group share their storage. The group's \<^verbatim>\<open>entry_count\<close>,
  \<^verbatim>\<open>load_times\<close> and \<^verbatim>\<open>load_step\<close> are the entry's \<^verbatim>\<open>attributes\<close>, \<^verbatim>\<open>page_count\<close> and \<^verbatim>\<open>rva\<close>.
\<close>

record layout_t =
  l_id :: u16
  l_attributes :: u16
  l_page_count :: u32
  l_rva :: u64
  l_si_flags :: u64

definition entry_count :: "layout_t \<Rightarrow> u16" where "entry_count l = l_attributes l"
definition load_times :: "layout_t \<Rightarrow> u32" where "load_times l = l_page_count l"
definition load_step :: "layout_t \<Rightarrow> u64" where "load_step l = l_rva l"

abbreviation (input) GROUP_FLAG :: u16 where "GROUP_FLAG \<equiv> 0x1000"
abbreviation (input) LAYOUT_ID_HEAP_MIN :: u16 where "LAYOUT_ID_HEAP_MIN \<equiv> 1"
abbreviation (input) LAYOUT_ID_HEAP_MAX :: u16 where "LAYOUT_ID_HEAP_MAX \<equiv> 3"
abbreviation (input) LAYOUT_ID_STACK_MAX :: u16 where "LAYOUT_ID_STACK_MAX \<equiv> 7"
abbreviation (input) LAYOUT_ID_TCS_DYN :: u16 where "LAYOUT_ID_TCS_DYN \<equiv> 14"
abbreviation (input) LAYOUT_ID_STACK_DYN_MIN :: u16 where "LAYOUT_ID_STACK_DYN_MIN \<equiv> 18"
abbreviation (input) LAYOUT_ID_THREAD_GROUP_DYN :: u16 where "LAYOUT_ID_THREAD_GROUP_DYN \<equiv> 0x1013"
abbreviation (input) LAYOUT_ID_RSRV_MIN :: u16 where "LAYOUT_ID_RSRV_MIN \<equiv> 20"
abbreviation (input) LAYOUT_ID_RSRV_MAX :: u16 where "LAYOUT_ID_RSRV_MAX \<equiv> 22"

definition IS_GROUP_ID :: "u16 \<Rightarrow> bool" where
  "IS_GROUP_ID x \<longleftrightarrow> x AND GROUP_FLAG \<noteq> 0"

abbreviation (input) PAGE_ATTR_POST_ADD :: u16 where "PAGE_ATTR_POST_ADD \<equiv> 8"
abbreviation (input) PAGE_ATTR_POST_REMOVE :: u16 where "PAGE_ATTR_POST_REMOVE \<equiv> 0x10"
abbreviation (input) PAGE_ATTR_DYN_THREAD :: u16 where "PAGE_ATTR_DYN_THREAD \<equiv> 0x20"
abbreviation (input) PAGE_DIR_GROW_DOWN :: u16 where "PAGE_DIR_GROW_DOWN \<equiv> 0x40"

abbreviation (input) SI_FLAG_R :: u64 where "SI_FLAG_R \<equiv> 1"
abbreviation (input) SI_FLAG_W :: u64 where "SI_FLAG_W \<equiv> 2"
abbreviation (input) SI_FLAG_X :: u64 where "SI_FLAG_X \<equiv> 4"
abbreviation (input) SI_FLAG_PENDING :: u64 where "SI_FLAG_PENDING \<equiv> 8"
abbreviation (input) SI_FLAG_MODIFIED :: u64 where "SI_FLAG_MODIFIED \<equiv> 0x10"
abbreviation (input) SI_FLAG_PR :: u64 where "SI_FLAG_PR \<equiv> 0x20"
abbreviation (input) SI_FLAG_TCS :: u64 where "SI_FLAG_TCS \<equiv> 0x100"
abbreviation (input) SI_FLAG_REG :: u64 where "SI_FLAG_REG \<equiv> 0x200"
abbreviation (input) SI_FLAG_TRIM :: u64 where "SI_FLAG_TRIM \<equiv> 0x400"
abbreviation (input) SI_FLAGS_RW :: u64 where "SI_FLAGS_RW \<equiv> 0x203"
abbreviation (input) SI_FLAGS_TCS :: u64 where "SI_FLAGS_TCS \<equiv> 0x100"

text \<open>
  The fields of \<^verbatim>\<open>g_global_data\<close> these functions read, the image base, and the feature flag
  \<^verbatim>\<open>EDMM_supported\<close>. \<open>layout_table\<close> is the first \<^verbatim>\<open>layout_entry_num\<close> elements of the table.
\<close>

record global_data =
  image_base :: u64
  enclave_size :: u64
  heap_offset :: u64
  heap_size :: u64
  rsrv_offset :: u64
  rsrv_size :: u64
  EDMM_supported :: bool
  layout_table :: "layout_t list"

section \<open>Sizes (trts\_util.cpp)\<close>

definition page_bytes :: "u32 \<Rightarrow> u64" where
  "page_bytes page_count = push_bit SE_PAGE_SHIFT (ucast page_count)"

definition get_enclave_end :: "global_data \<Rightarrow> u64" where
  "get_enclave_end g = image_base g + enclave_size g - 1"

definition get_heap_base :: "global_data \<Rightarrow> u64" where
  "get_heap_base g = image_base g + heap_offset g"

fun add_sizes :: "u16 \<Rightarrow> layout_t list \<Rightarrow> u64 \<Rightarrow> u64" where
  "add_sizes i [] sz = sz"
| "add_sizes i (l # ls) sz = add_sizes i ls (if l_id l = i then sz + page_bytes (l_page_count l) else sz)"

fun first_size :: "u16 \<Rightarrow> layout_t list \<Rightarrow> u64" where
  "first_size i [] = 0"
| "first_size i (l # ls) = (if l_id l = i then page_bytes (l_page_count l) else first_size i ls)"

definition get_heap_size :: "global_data \<Rightarrow> u64" where
  "get_heap_size g =
     (if EDMM_supported g then add_sizes LAYOUT_ID_HEAP_MAX (layout_table g) (heap_size g) else heap_size g)"

definition get_heap_min_size :: "global_data \<Rightarrow> u64" where
  "get_heap_min_size g = first_size LAYOUT_ID_HEAP_MIN (layout_table g)"

definition get_rsrv_base :: "global_data \<Rightarrow> u64" where
  "get_rsrv_base g = image_base g + rsrv_offset g"

definition get_rsrv_size :: "global_data \<Rightarrow> u64" where
  "get_rsrv_size g =
     (if EDMM_supported g then add_sizes LAYOUT_ID_RSRV_MAX (layout_table g) (rsrv_size g) else rsrv_size g)"

definition get_rsrv_end :: "global_data \<Rightarrow> u64" where
  "get_rsrv_end g = get_rsrv_base g + get_rsrv_size g - 1"

definition get_rsrv_min_size :: "global_data \<Rightarrow> u64" where
  "get_rsrv_min_size g = first_size LAYOUT_ID_RSRV_MIN (layout_table g)"

section \<open>Accepting pages (trts\_add\_trim.cpp)\<close>

type_synonym eaccept = "u64 \<Rightarrow> addr \<Rightarrow> int"

text \<open>Both loops may run for ever when the range wraps around the address space: \<open>None\<close>.\<close>

partial_function (option) accept_backward ::
  "eaccept \<Rightarrow> u64 \<Rightarrow> u64 \<Rightarrow> u64 \<Rightarrow> addr list \<Rightarrow> addr list exec option" where
  "accept_backward eaccept sfl lo addr acc =
     (if lo < addr
      then let addr = addr - SE_PAGE_SIZE in
           if eaccept sfl addr \<noteq> 0 then Some (Inl Abort)
           else accept_backward eaccept sfl lo addr (acc @ [addr])
      else Some (Inr acc))"

partial_function (option) accept_forward ::
  "eaccept \<Rightarrow> u64 \<Rightarrow> u64 \<Rightarrow> u64 \<Rightarrow> addr list \<Rightarrow> addr list exec option" where
  "accept_forward eaccept sfl addr hi acc =
     (if addr < hi
      then if eaccept sfl addr \<noteq> 0 then Some (Inl Abort)
           else accept_forward eaccept sfl (addr + SE_PAGE_SIZE) hi (acc @ [addr])
      else Some (Inr acc))"

definition sgx_accept_backward :: "eaccept \<Rightarrow> u64 \<Rightarrow> u64 \<Rightarrow> u64 \<Rightarrow> addr list exec option" where
  "sgx_accept_backward eaccept sfl lo hi = accept_backward eaccept sfl lo hi []"

definition sgx_accept_forward :: "eaccept \<Rightarrow> u64 \<Rightarrow> u64 \<Rightarrow> u64 \<Rightarrow> addr list exec option" where
  "sgx_accept_forward eaccept sfl lo hi = accept_forward eaccept sfl lo hi []"

text \<open>The release build: the check of the stack position under \<^verbatim>\<open>#ifdef DEBUG\<close> is left out.\<close>

definition sgx_accept_forward_within_exception :: "eaccept \<Rightarrow> u64 \<Rightarrow> u64 \<Rightarrow> addr list exec option" where
  "sgx_accept_forward_within_exception eaccept lo hi =
     accept_forward eaccept (SI_FLAGS_RW OR SI_FLAG_PENDING) lo hi []"

definition get_dynamic_layout_by_id :: "global_data \<Rightarrow> u16 \<Rightarrow> layout_t option" where
  "get_dynamic_layout_by_id g i = find (\<lambda>l. l_id l = i) (layout_table g)"

text \<open>\<open>pages lo n\<close>: the \<open>n\<close> page addresses from \<open>lo\<close> upwards.\<close>

definition pages :: "u64 \<Rightarrow> nat \<Rightarrow> addr list" where
  "pages lo n = map (\<lambda>i. lo + word_of_nat i * SE_PAGE_SIZE) [0..<n]"

lemma pages_0 [simp]: "pages lo 0 = []"
  by (simp add: pages_def)

lemma pages_Suc: "pages lo (Suc n) = lo # pages (lo + SE_PAGE_SIZE) n"
  by (simp add: pages_def upt_conv_Cons map_Suc_upt [symmetric] comp_def algebra_simps del: upt_Suc)

lemma pages_Suc_snoc: "pages lo (Suc n) = pages lo n @ [lo + word_of_nat n * SE_PAGE_SIZE]"
  by (simp add: pages_def)

lemma length_pages [simp]: "length (pages lo n) = n"
  by (simp add: pages_def)

lemma unat_page_end:
  assumes "unat lo + n * 4096 < 2 ^ 64"
  shows "unat (lo + word_of_nat n * SE_PAGE_SIZE :: u64) = unat lo + n * 4096"
proof -
  have n: "unat (word_of_nat n * SE_PAGE_SIZE :: u64) = n * 4096"
    using assms by (simp add: unat_word_ariths unat_of_nat)
  then show ?thesis using assms by (simp add: unat_word_ariths)
qed

lemma accept_forward_exact:
  assumes "unat lo + n * 4096 < 2 ^ 64"
  shows "accept_forward ea sfl lo (lo + word_of_nat n * SE_PAGE_SIZE) acc =
    Some (if \<forall>p \<in> set (pages lo n). ea sfl p = 0 then Inr (acc @ pages lo n) else Inl Abort)"
  using assms
proof (induction n arbitrary: lo acc)
  case 0
  show ?case by (subst accept_forward.simps) simp
next
  case (Suc n)
  have s: "unat (lo + SE_PAGE_SIZE) = unat lo + 4096"
    using unat_page_end [of lo 1] Suc.prems by simp
  have e: "lo + word_of_nat (Suc n) * SE_PAGE_SIZE = lo + SE_PAGE_SIZE + word_of_nat n * SE_PAGE_SIZE"
    by (simp add: algebra_simps)
  have "lo < lo + word_of_nat (Suc n) * SE_PAGE_SIZE"
    using unat_page_end [OF Suc.prems] by (simp add: word_less_nat_alt del: of_nat_Suc)
  then have "accept_forward ea sfl lo (lo + word_of_nat (Suc n) * SE_PAGE_SIZE) acc =
    (if ea sfl lo \<noteq> 0 then Some (Inl Abort)
     else accept_forward ea sfl (lo + SE_PAGE_SIZE) (lo + SE_PAGE_SIZE + word_of_nat n * SE_PAGE_SIZE) (acc @ [lo]))"
    unfolding e by (subst accept_forward.simps) simp
  with Suc.IH [of "lo + SE_PAGE_SIZE" "acc @ [lo]"] s Suc.prems show ?case
    by (simp add: pages_Suc)
qed

lemma accept_backward_exact:
  assumes "unat lo + n * 4096 < 2 ^ 64"
  shows "accept_backward ea sfl lo (lo + word_of_nat n * SE_PAGE_SIZE) acc =
    Some (if \<forall>p \<in> set (pages lo n). ea sfl p = 0 then Inr (acc @ rev (pages lo n)) else Inl Abort)"
  using assms
proof (induction n arbitrary: acc)
  case 0
  show ?case by (subst accept_backward.simps) simp
next
  case (Suc n)
  have e: "lo + word_of_nat (Suc n) * SE_PAGE_SIZE - SE_PAGE_SIZE = lo + word_of_nat n * SE_PAGE_SIZE"
    by (simp add: algebra_simps)
  have "lo < lo + word_of_nat (Suc n) * SE_PAGE_SIZE"
    using unat_page_end [OF Suc.prems] by (simp add: word_less_nat_alt del: of_nat_Suc)
  then have "accept_backward ea sfl lo (lo + word_of_nat (Suc n) * SE_PAGE_SIZE) acc =
    (if ea sfl (lo + word_of_nat n * SE_PAGE_SIZE) \<noteq> 0 then Some (Inl Abort)
     else accept_backward ea sfl lo (lo + word_of_nat n * SE_PAGE_SIZE) (acc @ [lo + word_of_nat n * SE_PAGE_SIZE]))"
    by (subst accept_backward.simps) (simp only: if_True Let_def e)
  with Suc.IH [of "acc @ [lo + word_of_nat n * SE_PAGE_SIZE]"] Suc.prems show ?case
    by (simp add: pages_Suc_snoc)
qed

section \<open>Sequencing steps that may fail or not return\<close>

fun foldM :: "('a \<Rightarrow> 'b \<Rightarrow> ('e + 'a) option) \<Rightarrow> 'b list \<Rightarrow> 'a \<Rightarrow> ('e + 'a) option" where
  "foldM f [] a = Some (Inr a)"
| "foldM f (x # xs) a =
     (case f a x of None \<Rightarrow> None | Some (Inl e) \<Rightarrow> Some (Inl e) | Some (Inr a) \<Rightarrow> foldM f xs a)"

lemma foldM_cong [fundef_cong]:
  "xs = ys \<Longrightarrow> a = b \<Longrightarrow> (\<And>x a. x \<in> set ys \<Longrightarrow> f a x = g a x) \<Longrightarrow> foldM f xs a = foldM g ys b"
proof (induction xs arbitrary: ys a b)
  case (Cons x xs)
  then show ?case by (auto split: option.split sum.split)
qed simp

lemma foldM_append:
  "foldM f (xs @ ys) a =
   (case foldM f xs a of None \<Rightarrow> None | Some (Inl e) \<Rightarrow> Some (Inl e) | Some (Inr a) \<Rightarrow> foldM f ys a)"
  by (induction xs arbitrary: a) (auto split: option.split sum.split)

lemma foldM_concat: "foldM f (concat xss) a = foldM (\<lambda>a xs. foldM f xs a) xss a"
  by (induction xss arbitrary: a) (auto simp: foldM_append split: option.split sum.split)

lemma foldM_map: "foldM f (map g xs) a = foldM (\<lambda>a x. f a (g x)) xs a"
  by (induction xs arbitrary: a) (auto split: option.split sum.split)

lemma foldM_collect:
  assumes "\<And>x acc. x \<in> set xs \<Longrightarrow> f acc x = Some (if ok x then Inr (acc @ out x) else Inl Abort)"
  shows "foldM f xs acc = Some (if \<forall>x \<in> set xs. ok x then Inr (acc @ concat (map out xs)) else Inl Abort)"
  using assms by (induction xs arbitrary: acc) auto

section \<open>Walking the layout table\<close>

text \<open>
  The walk that \<^verbatim>\<open>accept_post_remove\<close> and \<^verbatim>\<open>add_static_threads\<close> share: from \<open>start\<close> to \<open>stop\<close>; at a group, the
  \<^verbatim>\<open>entry_count\<close> elements in front of it once per load, with the accumulated step as offset. A group that
  reaches in front of the table has no defined result.
\<close>

function layout_walk ::
  "layout_t list \<Rightarrow> ('a \<Rightarrow> layout_t \<Rightarrow> u64 \<Rightarrow> ('e + 'a) option) \<Rightarrow> nat \<Rightarrow> nat \<Rightarrow> u64 \<Rightarrow> 'a \<Rightarrow> ('e + 'a) option" where
  "layout_walk tbl step start stop offset a =
     foldM (\<lambda>a i.
       let l = tbl ! i in
       if \<not> IS_GROUP_ID (l_id l) then step a l offset
       else if unat (entry_count l) > i then None
       else foldM (\<lambda>a j. layout_walk tbl step (i - unat (entry_count l)) i (word_of_nat j * load_step l) a)
              [1 ..< unat (load_times l) + 1] a) [start ..< stop] a"
  by pat_completeness auto
termination
  by (relation "measure (\<lambda>(_, _, _, stop, _, _). stop)") auto

declare layout_walk.simps [simp del]

text \<open>
  The load sequence of a layout table as \<^verbatim>\<open>metadata.h\<close> documents it: every entry once, and at a group
  the entries it covers, once per load, shifted by the accumulated step.
\<close>

definition group_entries :: "layout_t list \<Rightarrow> nat \<Rightarrow> nat list" where
  "group_entries tbl i = [i - unat (entry_count (tbl ! i)) ..< i]"

definition load_at :: "layout_t list \<Rightarrow> nat \<Rightarrow> (layout_t \<times> u64) list" where
  "load_at tbl i =
     (let l = tbl ! i in
      if IS_GROUP_ID (l_id l)
      then concat (map (\<lambda>j. map (\<lambda>k. (tbl ! k, word_of_nat j * load_step l)) (group_entries tbl i))
             [1 ..< unat (load_times l) + 1])
      else [(l, 0)])"

definition load_sequence :: "layout_t list \<Rightarrow> (layout_t \<times> u64) list" where
  "load_sequence tbl = concat (map (load_at tbl) [0 ..< length tbl])"

definition groups_wf :: "layout_t list \<Rightarrow> bool" where
  "groups_wf tbl \<longleftrightarrow>
     (\<forall>i < length tbl. IS_GROUP_ID (l_id (tbl ! i)) \<longrightarrow>
        unat (entry_count (tbl ! i)) \<le> i \<and> (\<forall>k \<in> set (group_entries tbl i). \<not> IS_GROUP_ID (l_id (tbl ! k))))"

lemma layout_walk_plain:
  assumes "\<And>i. i \<in> set [start ..< stop] \<Longrightarrow> \<not> IS_GROUP_ID (l_id (tbl ! i))"
  shows "layout_walk tbl step start stop off a = foldM (\<lambda>a i. step a (tbl ! i) off) [start ..< stop] a"
  unfolding layout_walk.simps [of tbl step start stop off a]
  by (rule foldM_cong) (use assms in \<open>auto simp: Let_def\<close>)

lemma layout_walk_load_sequence:
  assumes "groups_wf tbl"
  shows "layout_walk tbl step 0 (length tbl) 0 a = foldM (\<lambda>a (l, off). step a l off) (load_sequence tbl) a"
proof -
  have "layout_walk tbl step 0 (length tbl) 0 a =
      foldM (\<lambda>a i. foldM (\<lambda>a (l, off). step a l off) (load_at tbl i) a) [0 ..< length tbl] a"
    unfolding layout_walk.simps [of tbl step 0 "length tbl" 0 a]
  proof (rule foldM_cong [OF refl refl])
    fix i a
    assume "i \<in> set [0 ..< length tbl]"
    then have i: "i < length tbl" by simp
    let ?l = "tbl ! i"
    show "(let l = tbl ! i in
       if \<not> IS_GROUP_ID (l_id l) then step a l 0
       else if unat (entry_count l) > i then None
       else foldM (\<lambda>a j. layout_walk tbl step (i - unat (entry_count l)) i (word_of_nat j * load_step l) a)
              [1 ..< unat (load_times l) + 1] a) =
      foldM (\<lambda>a (l, off). step a l off) (load_at tbl i) a"
    proof (cases "IS_GROUP_ID (l_id ?l)")
      case False
      then show ?thesis by (auto simp: load_at_def Let_def split: option.split sum.split)
    next
      case True
      with assms i have ec: "unat (entry_count ?l) \<le> i"
        and plain: "\<forall>k \<in> set (group_entries tbl i). \<not> IS_GROUP_ID (l_id (tbl ! k))"
        unfolding groups_wf_def by blast+
      have "layout_walk tbl step (i - unat (entry_count ?l)) i off a =
          foldM (\<lambda>a (l, off). step a l off) (map (\<lambda>k. (tbl ! k, off)) (group_entries tbl i)) a" for off a
        using plain by (subst layout_walk_plain) (auto simp: group_entries_def foldM_map)
      then show ?thesis using True ec
        by (simp add: load_at_def Let_def foldM_concat foldM_map)
    qed
  qed
  then show ?thesis by (simp add: load_sequence_def foldM_concat foldM_map)
qed

end
