(* ===== verification/Trts_Elf.thy ===== *)
theory Trts_Elf
  imports Memory Trts_Layout
begin

text \<open>
  The ELF image of the enclave as the trusted runtime reads it (\<^verbatim>\<open>sdk/trts/linux/elf_parser.c\<close>, x86-64):
  program headers, the dynamic section, relocation of the image in place, the TLS segment, and the
  page permissions restored after relocation. The structures are read from byte memory at the offsets
  of \<^verbatim>\<open>common/inc/internal/elfheader/elfstructs.h\<close>.
\<close>

section \<open>Structures\<close>

abbreviation (input) e_type :: "mem \<Rightarrow> addr \<Rightarrow> u16" where "e_type m h \<equiv> load_le 2 m (h + 16)"
abbreviation (input) e_phoff :: "mem \<Rightarrow> addr \<Rightarrow> u64" where "e_phoff m h \<equiv> load64 m (h + 32)"
abbreviation (input) e_phnum :: "mem \<Rightarrow> addr \<Rightarrow> u16" where "e_phnum m h \<equiv> load_le 2 m (h + 56)"

abbreviation (input) p_type :: "mem \<Rightarrow> addr \<Rightarrow> u32" where "p_type m p \<equiv> load32 m p"
abbreviation (input) p_flags :: "mem \<Rightarrow> addr \<Rightarrow> u32" where "p_flags m p \<equiv> load32 m (p + 4)"
abbreviation (input) p_vaddr :: "mem \<Rightarrow> addr \<Rightarrow> u64" where "p_vaddr m p \<equiv> load64 m (p + 16)"
abbreviation (input) p_paddr :: "mem \<Rightarrow> addr \<Rightarrow> u64" where "p_paddr m p \<equiv> load64 m (p + 24)"
abbreviation (input) p_filesz :: "mem \<Rightarrow> addr \<Rightarrow> u64" where "p_filesz m p \<equiv> load64 m (p + 32)"
abbreviation (input) p_memsz :: "mem \<Rightarrow> addr \<Rightarrow> u64" where "p_memsz m p \<equiv> load64 m (p + 40)"
abbreviation (input) p_align :: "mem \<Rightarrow> addr \<Rightarrow> u64" where "p_align m p \<equiv> load64 m (p + 48)"

abbreviation (input) d_tag :: "mem \<Rightarrow> addr \<Rightarrow> u64" where "d_tag m d \<equiv> load64 m d"
abbreviation (input) d_un :: "mem \<Rightarrow> addr \<Rightarrow> u64" where "d_un m d \<equiv> load64 m (d + 8)"

abbreviation (input) r_offset :: "mem \<Rightarrow> addr \<Rightarrow> u64" where "r_offset m r \<equiv> load64 m r"
abbreviation (input) r_info :: "mem \<Rightarrow> addr \<Rightarrow> u64" where "r_info m r \<equiv> load64 m (r + 8)"
abbreviation (input) r_addend :: "mem \<Rightarrow> addr \<Rightarrow> u64" where "r_addend m r \<equiv> load64 m (r + 16)"

abbreviation (input) st_info :: "mem \<Rightarrow> addr \<Rightarrow> u8" where "st_info m s \<equiv> m (s + 4)"
abbreviation (input) st_value :: "mem \<Rightarrow> addr \<Rightarrow> u64" where "st_value m s \<equiv> load64 m (s + 8)"

abbreviation (input) PT_LOAD :: u32 where "PT_LOAD \<equiv> 1"
abbreviation (input) PT_DYNAMIC :: u32 where "PT_DYNAMIC \<equiv> 2"
abbreviation (input) PT_TLS :: u32 where "PT_TLS \<equiv> 7"
abbreviation (input) PT_GNU_RELRO :: u32 where "PT_GNU_RELRO \<equiv> 0x6474e552"
abbreviation (input) PF_X :: u32 where "PF_X \<equiv> 1"
abbreviation (input) PF_W :: u32 where "PF_W \<equiv> 2"
abbreviation (input) PF_R :: u32 where "PF_R \<equiv> 4"
abbreviation (input) DT_NULL :: u64 where "DT_NULL \<equiv> 0"
abbreviation (input) DT_PLTRELSZ :: u64 where "DT_PLTRELSZ \<equiv> 2"
abbreviation (input) DT_SYMTAB :: u64 where "DT_SYMTAB \<equiv> 6"
abbreviation (input) DT_RELA :: u64 where "DT_RELA \<equiv> 7"
abbreviation (input) DT_RELASZ :: u64 where "DT_RELASZ \<equiv> 8"
abbreviation (input) DT_RELAENT :: u64 where "DT_RELAENT \<equiv> 9"
abbreviation (input) DT_TEXTREL :: u64 where "DT_TEXTREL \<equiv> 22"
abbreviation (input) DT_JMPREL :: u64 where "DT_JMPREL \<equiv> 23"
abbreviation (input) DT_INIT_ARRAY :: u64 where "DT_INIT_ARRAY \<equiv> 25"
abbreviation (input) DT_FINI_ARRAY :: u64 where "DT_FINI_ARRAY \<equiv> 26"
abbreviation (input) DT_INIT_ARRAYSZ :: u64 where "DT_INIT_ARRAYSZ \<equiv> 27"
abbreviation (input) DT_FINI_ARRAYSZ :: u64 where "DT_FINI_ARRAYSZ \<equiv> 28"

definition phdr_at :: "addr \<Rightarrow> nat \<Rightarrow> addr" where
  "phdr_at phdr i = phdr + word_of_nat i * 56"

text \<open>\<open>NULL\<close> for an image that is not a shared ELF object.\<close>

definition get_phdr :: "mem \<Rightarrow> addr \<Rightarrow> addr" where
  "get_phdr m ehdr =
     (if ehdr = NULL then NULL
      else if m ehdr \<noteq> 0x7f \<or> m (ehdr + 1) \<noteq> 0x45 \<or> m (ehdr + 2) \<noteq> 0x4c \<or> m (ehdr + 3) \<noteq> 0x46 then NULL
      else if e_type m ehdr \<noteq> 3 then NULL
      else ehdr + e_phoff m ehdr)"

section \<open>The TLS segment and the constructor arrays\<close>

text \<open>The first program header of a type.\<close>

fun find_phdr :: "mem \<Rightarrow> addr \<Rightarrow> u32 \<Rightarrow> nat \<Rightarrow> addr option" where
  "find_phdr m phdr t 0 = None"
| "find_phdr m phdr t (Suc n) = (if p_type m phdr = t then Some phdr else find_phdr m (phdr + 56) t n)"

text \<open>\<open>None\<close> is the result -1; the pointers for the results are never null where these are called.\<close>

definition elf_tls_info :: "mem \<Rightarrow> addr \<Rightarrow> (u64 \<times> u64) option" where
  "elf_tls_info m enclave_base =
     (let phdr = get_phdr m enclave_base in
      if phdr = NULL then None
      else case find_phdr m phdr PT_TLS (unat (e_phnum m enclave_base)) of
             None \<Rightarrow> Some (0, 0)
           | Some p \<Rightarrow> Some (enclave_base + p_vaddr m p, p_filesz m p))"

definition elf_tls_aligned_virtual_size :: "mem \<Rightarrow> addr \<Rightarrow> u64 option" where
  "elf_tls_aligned_virtual_size m enclave_base =
     (let phdr = get_phdr m enclave_base in
      if phdr = NULL then None
      else case find_phdr m phdr PT_TLS (unat (e_phnum m enclave_base)) of
             None \<Rightarrow> Some 0
           | Some p \<Rightarrow>
               let virtual_size = p_memsz m p; align = p_align m p in
               if align = 0 \<or> align = 1 then Some virtual_size
               else Some ((virtual_size + align - 1) AND NOT (align - 1)))"

text \<open>
  The entries of a dynamic section from \<open>dyn\<close>, at most \<open>n\<close>: the pairs of tag and value, all of them
  (\<open>elf_get_init_array\<close> does not stop at \<^verbatim>\<open>DT_NULL\<close>) or up to the null entry.
\<close>

fun dyn_entries :: "mem \<Rightarrow> addr \<Rightarrow> nat \<Rightarrow> (u64 \<times> u64) list" where
  "dyn_entries m dyn 0 = []"
| "dyn_entries m dyn (Suc n) = (d_tag m dyn, d_un m dyn) # dyn_entries m (dyn + 16) n"

definition dyn_of :: "mem \<Rightarrow> addr \<Rightarrow> addr \<Rightarrow> (u64 \<times> u64) list" where
  "dyn_of m ehdr p = dyn_entries m (ehdr + p_paddr m p) (unat (p_filesz m p div 16))"

fun scan_array :: "u64 \<Rightarrow> u64 \<Rightarrow> (u64 \<times> u64) list \<Rightarrow> u64 \<times> u64 \<Rightarrow> u64 \<times> u64" where
  "scan_array ta ts [] r = r"
| "scan_array ta ts ((tag, v) # ds) (a, n) =
     scan_array ta ts ds (if tag = ta then (v, n) else if tag = ts then (a, v) else (a, n))"

definition elf_get_array :: "u64 \<Rightarrow> u64 \<Rightarrow> mem \<Rightarrow> addr \<Rightarrow> (u64 \<times> u64) option" where
  "elf_get_array ta ts m enclave_base =
     (let phdr = get_phdr m enclave_base in
      if phdr = NULL then None
      else Some (fold (\<lambda>i r. if p_type m (phdr_at phdr i) = PT_DYNAMIC
                             then scan_array ta ts (dyn_of m enclave_base (phdr_at phdr i)) r else r)
                   [0 ..< unat (e_phnum m enclave_base)] (0, 0)))"

definition elf_get_init_array :: "mem \<Rightarrow> addr \<Rightarrow> (u64 \<times> u64) option" where
  "elf_get_init_array = elf_get_array DT_INIT_ARRAY DT_INIT_ARRAYSZ"

definition elf_get_uninit_array :: "mem \<Rightarrow> addr \<Rightarrow> (u64 \<times> u64) option" where
  "elf_get_uninit_array = elf_get_array DT_FINI_ARRAY DT_FINI_ARRAYSZ"

section \<open>Relocation\<close>

text \<open>A weak symbol without a value is not implemented: \<open>None\<close>.\<close>

definition get_sym :: "mem \<Rightarrow> addr \<Rightarrow> u64 \<Rightarrow> addr option" where
  "get_sym m symtab idx =
     (let s = symtab + idx * 24 in
      if drop_bit 4 (st_info m s) = 2 \<and> st_value m s = 0 then None else Some s)"

text \<open>One entry of the relocation table; \<open>None\<close> is the result -1.\<close>

definition do_reloc :: "mem \<Rightarrow> addr \<Rightarrow> addr \<Rightarrow> addr \<Rightarrow> mem option" where
  "do_reloc m enclave_base symtab rela =
     (let reloc_addr = enclave_base + r_offset m rela;
          type = r_info m rela AND 0xFFFFFFFF;
          sym = get_sym m symtab (drop_bit 32 (r_info m rela)) in
      if type = 8 then Some (store64 m reloc_addr (enclave_base + r_addend m rela))
      else if type = 6 \<or> type = 7 \<or> type = 1 then
        (case sym of None \<Rightarrow> Some m
         | Some s \<Rightarrow> Some (store64 m reloc_addr (enclave_base + st_value m s + r_addend m rela)))
      else if type = 16 then Some (store64 m reloc_addr 1)
      else if type = 17 then
        (case sym of None \<Rightarrow> Some m
         | Some s \<Rightarrow> Some (store64 m reloc_addr (st_value m s + r_addend m rela)))
      else if type = 18 then
        (case sym of None \<Rightarrow> Some m
         | Some s \<Rightarrow>
             (case elf_tls_aligned_virtual_size m enclave_base of
                None \<Rightarrow> None
              | Some sz \<Rightarrow> if sz \<noteq> 0 then Some (store64 m reloc_addr (st_value m s + r_addend m rela - sz)) else None))
      else if type = 0 then Some m
      else None)"

fun do_reloc_loop :: "mem \<Rightarrow> addr \<Rightarrow> addr \<Rightarrow> addr \<Rightarrow> nat \<Rightarrow> mem option" where
  "do_reloc_loop m enclave_base symtab rela 0 = Some m"
| "do_reloc_loop m enclave_base symtab rela (Suc n) =
     (case do_reloc m enclave_base symtab rela of
        None \<Rightarrow> None
      | Some m \<Rightarrow> do_reloc_loop m enclave_base symtab (rela + 24) n)"

definition do_relocs :: "mem \<Rightarrow> addr \<Rightarrow> u64 \<Rightarrow> u64 \<Rightarrow> u64 \<Rightarrow> mem option" where
  "do_relocs m enclave_base rela_offset sym_offset nr_relocs =
     do_reloc_loop m enclave_base (enclave_base + sym_offset) (enclave_base + rela_offset) (unat nr_relocs)"

record dyn_info =
  sym_offset :: u64
  rel_offset :: u64
  plt_offset :: u64
  rel_total_sz :: u64
  rel_entry_sz :: u64
  plt_total_sz :: u64

fun scan_dyn :: "(u64 \<times> u64) list \<Rightarrow> dyn_info \<Rightarrow> dyn_info" where
  "scan_dyn [] i = i"
| "scan_dyn ((tag, v) # ds) i =
     (if tag = DT_NULL then i
      else scan_dyn ds
        (if tag = DT_SYMTAB then i\<lparr>sym_offset := v\<rparr>
         else if tag = DT_RELA then i\<lparr>rel_offset := v\<rparr>
         else if tag = DT_RELASZ then i\<lparr>rel_total_sz := v\<rparr>
         else if tag = DT_RELAENT then i\<lparr>rel_entry_sz := v\<rparr>
         else if tag = DT_JMPREL then i\<lparr>plt_offset := v\<rparr>
         else if tag = DT_PLTRELSZ then i\<lparr>plt_total_sz := v\<rparr>
         else i))"

definition DO_REL :: "mem \<Rightarrow> addr \<Rightarrow> u64 \<Rightarrow> u64 \<Rightarrow> u64 \<Rightarrow> u64 \<Rightarrow> mem option" where
  "DO_REL m base rel_off sym_off total_sz entry_sz =
     (if rel_off \<noteq> 0
      then if entry_sz = 0 then None else do_relocs m base rel_off sym_off (total_sz div entry_sz)
      else Some m)"

text \<open>The loop over the program headers reads them from the memory being relocated.\<close>

function relocate_from :: "mem \<Rightarrow> addr \<Rightarrow> addr \<Rightarrow> nat \<Rightarrow> mem option" where
  "relocate_from m ehdr phdr phnum =
     (if phnum < unat (e_phnum m ehdr)
      then (if p_type m phdr = PT_DYNAMIC
            then (let i = scan_dyn (dyn_of m ehdr phdr)
                        \<lparr>sym_offset = 0, rel_offset = 0, plt_offset = 0, rel_total_sz = 0, rel_entry_sz = 0, plt_total_sz = 0\<rparr> in
                  case DO_REL m ehdr (rel_offset i) (sym_offset i) (rel_total_sz i) (rel_entry_sz i) of
                    None \<Rightarrow> None
                  | Some m \<Rightarrow>
                     (case DO_REL m ehdr (plt_offset i) (sym_offset i) (plt_total_sz i) (rel_entry_sz i) of
                        None \<Rightarrow> None
                      | Some m \<Rightarrow> relocate_from m ehdr (phdr + 56) (Suc phnum)))
            else relocate_from m ehdr (phdr + 56) (Suc phnum))
      else Some m)"
  by pat_completeness auto
termination
  by (relation "measure (\<lambda>(_, _, _, phnum). 2 ^ 16 - phnum)") (auto dest: less_u16)

declare relocate_from.simps [simp del]

definition relocate_enclave :: "mem \<Rightarrow> addr \<Rightarrow> mem option" where
  "relocate_enclave m enclave_base =
     (let phdr = get_phdr m enclave_base in
      if phdr = NULL then None else relocate_from m enclave_base phdr 0)"

section \<open>Relocation computes the values of the ABI\<close>

text \<open>What one entry asks for, from the image before relocation (base \<open>B\<close>, symbol value \<open>S\<close>, addend \<open>A\<close>).\<close>

datatype reloc_action = Keep | Put addr u64 | Unsupported

definition reloc_entry :: "addr \<Rightarrow> nat \<Rightarrow> addr" where
  "reloc_entry rela i = rela + word_of_nat i * 24"

definition reloc_sym :: "mem \<Rightarrow> addr \<Rightarrow> addr \<Rightarrow> addr" where
  "reloc_sym m symtab r = symtab + drop_bit 32 (r_info m r) * 24"

definition reloc_action :: "mem \<Rightarrow> addr \<Rightarrow> addr \<Rightarrow> addr \<Rightarrow> reloc_action" where
  "reloc_action m B symtab r =
     (let P = B + r_offset m r; A = r_addend m r; S = st_value m (reloc_sym m symtab r);
          type = r_info m r AND 0xFFFFFFFF; 
          undefined_weak = (drop_bit 4 (st_info m (reloc_sym m symtab r)) = 2 \<and> S = 0) in
      if type = 0 then Keep
      else if type = 8 then Put P (B + A)
      else if type = 16 then Put P 1
      else if type \<notin> {1, 6, 7, 17, 18} then Unsupported
      else if undefined_weak then Keep
      else if type = 17 then Put P (S + A)
      else if type = 18 then
        (case elf_tls_aligned_virtual_size m B of
           None \<Rightarrow> Unsupported | Some n \<Rightarrow> if n = 0 then Unsupported else Put P (S + A - n))
      else Put P (B + S + A))"

definition action_result :: "mem \<Rightarrow> reloc_action \<Rightarrow> mem option" where
  "action_result m a = (case a of Keep \<Rightarrow> Some m | Put p v \<Rightarrow> Some (store64 m p v) | Unsupported \<Rightarrow> None)"

lemma do_reloc_action: "do_reloc m B symtab r = action_result m (reloc_action m B symtab r)"
  by (auto simp: do_reloc_def reloc_action_def action_result_def get_sym_def reloc_sym_def Let_def
      split: option.split)

text \<open>The bytes the relocation loop reads.\<close>

definition header_bytes :: "mem \<Rightarrow> addr \<Rightarrow> addr set" where
  "header_bytes m B = window B 64 \<union> window (B + e_phoff m B) (56 * unat (e_phnum m B))"

definition reloc_bytes :: "mem \<Rightarrow> addr \<Rightarrow> addr \<Rightarrow> addr set" where
  "reloc_bytes m symtab r = window r 24 \<union> window (reloc_sym m symtab r) 24"

lemma find_phdr_cong:
  "(\<And>x. x \<in> window phdr (56 * n) \<Longrightarrow> m x = m' x) \<Longrightarrow> find_phdr m phdr t n = find_phdr m' phdr t n \<and>
   (\<forall>p. find_phdr m phdr t n = Some p \<longrightarrow> (\<forall>x \<in> window p 56. m x = m' x))"
proof (induction n arbitrary: phdr)
  case (Suc n)
  have "p_type m phdr = p_type m' phdr"
    by (rule load_window) (rule Suc.prems, erule window_mono, simp)
  moreover have "find_phdr m (phdr + 56) t n = find_phdr m' (phdr + 56) t n \<and>
   (\<forall>p. find_phdr m (phdr + 56) t n = Some p \<longrightarrow> (\<forall>x \<in> window p 56. m x = m' x))"
    by (rule Suc.IH) (rule Suc.prems, erule window_shift, simp)
  moreover have "\<forall>x \<in> window phdr 56. m x = m' x"
    by (intro ballI Suc.prems) (erule window_mono, simp)
  ultimately show ?case by simp
qed simp

lemma tls_size_cong:
  assumes "\<And>x. x \<in> header_bytes m B \<Longrightarrow> m x = m' x"
  shows "elf_tls_aligned_virtual_size m B = elf_tls_aligned_virtual_size m' B"
proof -
  have eh: "m x = m' x" if "x \<in> window B 64" for x
    using assms that by (simp add: header_bytes_def)
  have e: "e_phoff m B = e_phoff m' B" "e_phnum m B = e_phnum m' B" "e_type m B = e_type m' B"
    by (rule load_window, rule eh, erule window_shift, simp)+
  have "m B = m' B" "m (B + 1) = m' (B + 1)" "m (B + 2) = m' (B + 2)" "m (B + 3) = m' (B + 3)"
    by (rule eh, simp add: window_def)+
  with e have g: "get_phdr m B = get_phdr m' B" by (simp add: get_phdr_def)
  show ?thesis
  proof (cases "get_phdr m B = NULL")
    case True
    with g show ?thesis by (simp add: elf_tls_aligned_virtual_size_def)
  next
    case False
    then have p: "get_phdr m B = B + e_phoff m B" by (auto simp: get_phdr_def split: if_splits)
    have f: "find_phdr m (get_phdr m B) PT_TLS (unat (e_phnum m B)) = find_phdr m' (get_phdr m B) PT_TLS (unat (e_phnum m B)) \<and>
        (\<forall>q. find_phdr m (get_phdr m B) PT_TLS (unat (e_phnum m B)) = Some q \<longrightarrow> (\<forall>x \<in> window q 56. m x = m' x))"
      by (rule find_phdr_cong) (simp add: assms header_bytes_def p)
    show ?thesis
    proof (cases "find_phdr m (get_phdr m B) PT_TLS (unat (e_phnum m B))")
      case None
      with f g e show ?thesis by (simp add: elf_tls_aligned_virtual_size_def Let_def)
    next
      case (Some q)
      with f have q: "m x = m' x" if "x \<in> window q 56" for x using that by blast
      have "p_memsz m q = p_memsz m' q" "p_align m q = p_align m' q"
        by (rule load_window, rule q, erule window_shift, simp)+
      moreover have "find_phdr m' (get_phdr m' B) PT_TLS (unat (e_phnum m' B)) = Some q"
        using Some f g e by simp
      ultimately show ?thesis using Some g e by (simp add: elf_tls_aligned_virtual_size_def Let_def)
    qed
  qed
qed

lemma reloc_action_cong:
  assumes "\<And>x. x \<in> header_bytes m B \<union> reloc_bytes m symtab r \<Longrightarrow> m x = m' x"
  shows "reloc_action m B symtab r = reloc_action m' B symtab r"
proof -
  have r: "m x = m' x" if "x \<in> window r 24" for x using assms that by (simp add: reloc_bytes_def)
  have e: "r_offset m r = r_offset m' r" by (rule load_window) (rule r, erule window_mono, simp)
  have e': "r_info m r = r_info m' r" "r_addend m r = r_addend m' r"
    by (rule load_window, rule r, erule window_shift, simp)+
  then have s: "reloc_sym m symtab r = reloc_sym m' symtab r" by (simp add: reloc_sym_def)
  have y: "m x = m' x" if "x \<in> window (reloc_sym m' symtab r) 24" for x
    using assms that by (simp add: reloc_bytes_def s)
  have "st_value m (reloc_sym m' symtab r) = st_value m' (reloc_sym m' symtab r)"
    by (rule load_window, rule y, erule window_shift, simp)
  moreover have "st_info m (reloc_sym m' symtab r) = st_info m' (reloc_sym m' symtab r)"
    by (rule y) (simp add: window_def)
  moreover have "elf_tls_aligned_virtual_size m B = elf_tls_aligned_virtual_size m' B"
    by (rule tls_size_cong) (rule assms, erule UnI1)
  ultimately show ?thesis by (simp only: reloc_action_def e e' s)
qed

definition reloc_target :: "mem \<Rightarrow> addr \<Rightarrow> addr \<Rightarrow> nat \<Rightarrow> addr set" where
  "reloc_target m B rela i = window (B + r_offset m (reloc_entry rela i)) 8"

definition reloc_footprint :: "mem \<Rightarrow> addr \<Rightarrow> addr \<Rightarrow> addr \<Rightarrow> nat \<Rightarrow> addr set" where
  "reloc_footprint m B symtab rela n =
     header_bytes m B \<union> (\<Union>i < n. reloc_bytes m symtab (reloc_entry rela i))"

lemma reloc_action_target: "reloc_action m B symtab (reloc_entry rela i) = Put p v \<Longrightarrow> window p 8 = reloc_target m B rela i"
  by (auto simp: reloc_action_def reloc_target_def Let_def split: if_splits option.splits)

text \<open>Running the first \<open>k\<close> of \<open>n\<close> entries: what has been written, and that the tables are intact.\<close>

definition reloc_state :: "mem \<Rightarrow> addr \<Rightarrow> addr \<Rightarrow> addr \<Rightarrow> nat \<Rightarrow> mem \<Rightarrow> bool" where
  "reloc_state m B symtab rela k m' \<longleftrightarrow>
     (\<forall>i < k. \<forall>p v. reloc_action m B symtab (reloc_entry rela i) = Put p v \<longrightarrow> load64 m' p = v) \<and>
     (\<forall>x. (\<forall>i < k. \<forall>p v. reloc_action m B symtab (reloc_entry rela i) = Put p v \<longrightarrow> x \<notin> window p 8) \<longrightarrow> m' x = m x)"

lemma do_reloc_loop_snoc:
  "do_reloc_loop m B symtab rela (Suc n) =
   (case do_reloc_loop m B symtab rela n of None \<Rightarrow> None | Some m \<Rightarrow> do_reloc m B symtab (reloc_entry rela n))"
proof (induction n arbitrary: m rela)
  case 0
  show ?case by (simp add: reloc_entry_def split: option.split)
next
  case (Suc n)
  have r: "reloc_entry (rela + 24) n = reloc_entry rela (Suc n)"
    by (simp add: reloc_entry_def algebra_simps)
  show ?case
    using Suc.IH [of _ "rela + 24"] unfolding do_reloc_loop.simps(2) [of m B symtab rela]
    by (simp add: r split: option.split)
qed

lemma reloc_state_intact:
  assumes "reloc_state m B symtab rela k m'" "k \<le> n"
    and "\<And>i. i < n \<Longrightarrow> reloc_target m B rela i \<inter> reloc_footprint m B symtab rela n = {}"
    and "x \<in> reloc_footprint m B symtab rela n"
  shows "m' x = m x"
proof -
  have "x \<notin> window p 8" if "i < k" "reloc_action m B symtab (reloc_entry rela i) = Put p v" for i p v
    using assms(2,4) assms(3) [of i] that(1) reloc_action_target [OF that(2)] by auto
  with assms(1) show ?thesis unfolding reloc_state_def by blast
qed

lemma reloc_state_step:
  assumes st: "reloc_state m B symtab rela k m'" and k: "k < n"
    and tgt: "\<And>i. i < n \<Longrightarrow> reloc_target m B rela i \<inter> reloc_footprint m B symtab rela n = {}"
    and apart: "\<And>i j. i < j \<Longrightarrow> j < n \<Longrightarrow> reloc_target m B rela i \<inter> reloc_target m B rela j = {}"
  shows "case reloc_action m B symtab (reloc_entry rela k) of
      Unsupported \<Rightarrow> do_reloc m' B symtab (reloc_entry rela k) = None
    | _ \<Rightarrow> \<exists>m''. do_reloc m' B symtab (reloc_entry rela k) = Some m'' \<and> reloc_state m B symtab rela (Suc k) m''"
proof -
  have same: "reloc_action m' B symtab (reloc_entry rela k) = reloc_action m B symtab (reloc_entry rela k)"
  proof (rule reloc_action_cong [symmetric])
    fix x
    assume "x \<in> header_bytes m B \<union> reloc_bytes m symtab (reloc_entry rela k)"
    with k have "x \<in> reloc_footprint m B symtab rela n" by (auto simp: reloc_footprint_def)
    with reloc_state_intact [OF st less_imp_le [OF k] tgt] show "m x = m' x" by simp
  qed
  show ?thesis
  proof (cases "reloc_action m B symtab (reloc_entry rela k)")
    case Keep
    with st same show ?thesis
      by (auto simp: do_reloc_action action_result_def reloc_state_def less_Suc_eq)
  next
    case Unsupported
    with same show ?thesis by (simp add: do_reloc_action action_result_def)
  next
    case (Put p v)
    have old: "load64 (store64 m' p v) q = w"
      if i: "i < k" and a: "reloc_action m B symtab (reloc_entry rela i) = Put q w" for i q w
    proof -
      have "window q 8 \<inter> window p 8 = {}"
        using apart [OF i k] reloc_action_target [OF a] reloc_action_target [OF Put] by simp
      then have "load64 (store64 m' p v) q = load64 m' q"
        by (intro load_window store_outside) blast
      with st i a show ?thesis by (simp add: reloc_state_def)
    qed
    have new: "load64 (store64 m' p v) p = v" by (rule load_store_same) simp_all
    have rest: "store64 m' p v x = m x"
      if "\<forall>i < Suc k. \<forall>p v. reloc_action m B symtab (reloc_entry rela i) = Put p v \<longrightarrow> x \<notin> window p 8" for x
    proof -
      have "x \<notin> window p 8" using that Put by blast
      moreover have "m' x = m x" using st that unfolding reloc_state_def by (meson less_SucI)
      ultimately show ?thesis by (simp add: store_outside)
    qed
    have "reloc_state m B symtab rela (Suc k) (store64 m' p v)"
      unfolding reloc_state_def using old new rest Put by (auto simp: less_Suc_eq)
    with Put same show ?thesis by (simp add: do_reloc_action action_result_def)
  qed
qed

lemma do_reloc_loop_state:
  assumes "k \<le> n"
    and tgt: "\<And>i. i < n \<Longrightarrow> reloc_target m B rela i \<inter> reloc_footprint m B symtab rela n = {}"
    and apart: "\<And>i j. i < j \<Longrightarrow> j < n \<Longrightarrow> reloc_target m B rela i \<inter> reloc_target m B rela j = {}"
  shows "if \<exists>i < k. reloc_action m B symtab (reloc_entry rela i) = Unsupported
    then do_reloc_loop m B symtab rela k = None
    else \<exists>m'. do_reloc_loop m B symtab rela k = Some m' \<and> reloc_state m B symtab rela k m'"
  using assms(1)
proof (induction k)
  case 0
  show ?case by (simp add: reloc_state_def)
next
  case (Suc k)
  show ?case
  proof (cases "\<exists>i < k. reloc_action m B symtab (reloc_entry rela i) = Unsupported")
    case True
    with Suc.IH Suc.prems have "do_reloc_loop m B symtab rela k = None" by simp
    moreover have "\<exists>i < Suc k. reloc_action m B symtab (reloc_entry rela i) = Unsupported"
      using True less_SucI by blast
    ultimately show ?thesis by (simp only: do_reloc_loop_snoc if_True option.case)
  next
    case False
    with Suc.IH Suc.prems obtain m' where
      m': "do_reloc_loop m B symtab rela k = Some m'" "reloc_state m B symtab rela k m'" by auto
    have s: "case reloc_action m B symtab (reloc_entry rela k) of
        Unsupported \<Rightarrow> do_reloc m' B symtab (reloc_entry rela k) = None
      | _ \<Rightarrow> \<exists>m''. do_reloc m' B symtab (reloc_entry rela k) = Some m'' \<and> reloc_state m B symtab rela (Suc k) m''"
      using Suc.prems by (intro reloc_state_step [OF m'(2) _ tgt apart]) auto
    have ex: "(\<exists>i < Suc k. reloc_action m B symtab (reloc_entry rela i) = Unsupported) \<longleftrightarrow>
        reloc_action m B symtab (reloc_entry rela k) = Unsupported"
      using False by (auto simp: less_Suc_eq)
    show ?thesis unfolding ex do_reloc_loop_snoc m'(1) option.case
      using s by (cases "reloc_action m B symtab (reloc_entry rela k)") simp_all
  qed
qed

text \<open>
  C20. Relocating the image computes the value of each entry's type, whatever the order of the entries: when the
  words to relocate neither overlap each other nor the headers, relocation entries and symbols the
  loop reads, \<^verbatim>\<open>do_relocs\<close> fails exactly when some entry is unsupported (or needs a TLS segment the image
  does not have), and otherwise leaves at every target the value computed from the unrelocated image
  (base plus addend; base plus symbol plus addend, also for \<^verbatim>\<open>GLOB_DAT\<close> and \<^verbatim>\<open>JUMP_SLOT\<close>, where the ABI has no
  addend and the code adds the entry's; module 1; TLS offset) and every other byte unchanged.
\<close>
theorem do_relocs_exact:
  fixes m :: mem and B rela_off sym_off n :: u64
  defines "act \<equiv> \<lambda>i. reloc_action m B (B + sym_off) (reloc_entry (B + rela_off) i)"
  assumes "\<And>i. i < unat n \<Longrightarrow>
      reloc_target m B (B + rela_off) i \<inter> reloc_footprint m B (B + sym_off) (B + rela_off) (unat n) = {}"
    and "\<And>i j. i < j \<Longrightarrow> j < unat n \<Longrightarrow> reloc_target m B (B + rela_off) i \<inter> reloc_target m B (B + rela_off) j = {}"
  shows "(do_relocs m B rela_off sym_off n = None \<longleftrightarrow> (\<exists>i < unat n. act i = Unsupported))
    \<and> (\<forall>m'. do_relocs m B rela_off sym_off n = Some m' \<longrightarrow>
        (\<forall>i < unat n. \<forall>p v. act i = Put p v \<longrightarrow> load64 m' p = v) \<and>
        (\<forall>x. (\<forall>i < unat n. \<forall>p v. act i = Put p v \<longrightarrow> x \<notin> window p 8) \<longrightarrow> m' x = m x))"
proof -
  have "if \<exists>i < unat n. act i = Unsupported
    then do_relocs m B rela_off sym_off n = None
    else \<exists>m'. do_relocs m B rela_off sym_off n = Some m' \<and> reloc_state m B (B + sym_off) (B + rela_off) (unat n) m'"
    unfolding act_def do_relocs_def by (rule do_reloc_loop_state [OF order_refl assms(2,3)])
  then consider "\<exists>i < unat n. act i = Unsupported" "do_relocs m B rela_off sym_off n = None"
    | m' where "\<not> (\<exists>i < unat n. act i = Unsupported)" "do_relocs m B rela_off sym_off n = Some m'"
      "reloc_state m B (B + sym_off) (B + rela_off) (unat n) m'"
    by (metis (lifting))
  then show ?thesis
  proof cases
    case 1
    then show ?thesis by simp
  next
    case 2
    then show ?thesis unfolding reloc_state_def act_def by simp
  qed
qed

definition demo_elf :: mem where
  "demo_elf x = (case map_of [(0x100201, 0x10), (0x100208, 8), (0x100210, 0x30), (0x100218, 8), (0x100219, 0x10),
     (0x100220, 1), (0x100224, 1), (0x100228, 4), (0x10041c, 0x12), (0x100421, 5)] x of Some b \<Rightarrow> b | None \<Rightarrow> 0)"

theorem do_relocs_exact_witness:
  "\<exists>m'. do_relocs demo_elf 0x100000 0x200 0x400 2 = Some m' \<and> load64 m' 0x101000 = 0x100030 \<and>
     load64 m' 0x101008 = 0x100504 \<and> m' 0x100208 = 8"
proof -
  have a: "reloc_action demo_elf 0x100000 0x100400 (reloc_entry 0x100200 0) = Put 0x101000 0x100030"
    "reloc_action demo_elf 0x100000 0x100400 (reloc_entry 0x100200 1) = Put 0x101008 0x100504" by code_simp+
  have o: "r_offset demo_elf (reloc_entry 0x100200 0) = 0x1000" "r_offset demo_elf (reloc_entry 0x100200 1) = 0x1008"
    "reloc_sym demo_elf 0x100400 (reloc_entry 0x100200 0) = 0x100400"
    "reloc_sym demo_elf 0x100400 (reloc_entry 0x100200 1) = 0x100418"
    "reloc_entry 0x100200 0 = 0x100200" "reloc_entry 0x100200 1 = 0x100218"
    "e_phoff demo_elf 0x100000 = 0" "e_phnum demo_elf 0x100000 = 0" "demo_elf 0x100208 = 8" by code_simp+
  have two: "i < 2 \<longleftrightarrow> i = 0 \<or> i = 1" for i :: nat by auto
  have lt: "{..<2} = {0, 1 :: nat}" by auto
  have t: "reloc_target demo_elf 0x100000 0x100200 0 = window 0x101000 8"
    "reloc_target demo_elf 0x100000 0x100200 1 = window 0x101008 8" unfolding reloc_target_def o(1,2) by simp_all
  have f: "reloc_footprint demo_elf 0x100000 0x100400 0x100200 2 =
      window 0x100000 64 \<union> window 0x100000 0 \<union> window 0x100200 24 \<union> window 0x100400 24 \<union>
      window 0x100218 24 \<union> window 0x100418 24"
    unfolding reloc_footprint_def lt header_bytes_def reloc_bytes_def UN_insert UN_empty o(3,4)
    unfolding o(5-8)
    by (simp add: Un_ac)
  have d: "window 0x101000 8 \<inter> reloc_footprint demo_elf 0x100000 0x100400 0x100200 2 = {}"
    "window 0x101008 8 \<inter> reloc_footprint demo_elf 0x100000 0x100400 0x100200 2 = {}"
    unfolding f by (simp_all add: Int_Un_distrib windows_disjointI)
  have e: "(0x100000 :: u64) + 0x200 = 0x100200" "(0x100000 :: u64) + 0x400 = 0x100400" "unat (2 :: u64) = 2" by simp_all
  note th = do_relocs_exact [of 2 demo_elf "0x100000" "0x200" "0x400", unfolded e]
  have h1: "reloc_target demo_elf 0x100000 0x100200 i \<inter> reloc_footprint demo_elf 0x100000 0x100400 0x100200 2 = {}"
    if "i < 2" for i
    using that d unfolding two by (elim disjE) (simp_all only: t)
  have h2: "reloc_target demo_elf 0x100000 0x100200 i \<inter> reloc_target demo_elf 0x100000 0x100200 j = {}"
    if "i < j" "j < 2" for i j
  proof -
    from that have "i = 0" "j = 1" by simp_all
    then show ?thesis by (simp only: t) (simp add: windows_disjointI)
  qed
  have q: "(\<forall>i < 2. P i) \<longleftrightarrow> P 0 \<and> P 1" "(\<exists>i < 2. P i) \<longleftrightarrow> P 0 \<or> P 1" for P :: "nat \<Rightarrow> bool"
    using two by auto
  note r = th [OF h1 h2, unfolded q a reloc_action.distinct reloc_action.inject]
  from r have "do_relocs demo_elf 0x100000 0x200 0x400 2 \<noteq> None" by simp
  then obtain m' where m': "do_relocs demo_elf 0x100000 0x200 0x400 2 = Some m'" by blast
  have n: "0x100208 \<notin> window 0x101000 8" "0x100208 \<notin> window 0x101008 8" by (simp_all add: window_def)
  from r m' o(9) n show ?thesis by simp
qed

end
