(* ===== verification/Trts_Range.thy ===== *)
theory Trts_Range
  imports Prelude "HOL-Library.Monad_Syntax"
begin

text \<open>
  Address range checks of the trusted runtime (\<^verbatim>\<open>sdk/trts/trts.cpp\<close> and the address helpers of
  \<^verbatim>\<open>sdk/trts/trts_util.cpp\<close>): the two buffer checks every trusted entry point relies on, the
  allocator on the untrusted stack, the random byte source, the trusted stack checks and the
  feature bit lookup. All address arithmetic is on 64-bit words and wraps as in the source.
\<close>

section \<open>Buffers inside and outside the enclave\<close>

record enclave_range =
  g_enclave_base :: u64
  g_enclave_size :: u64

definition sgx_is_within_enclave :: "enclave_range \<Rightarrow> addr \<Rightarrow> u64 \<Rightarrow> bool" where
  "sgx_is_within_enclave e start sz =
     (let enclave_start = g_enclave_base e;
          enclave_end = enclave_start + g_enclave_size e - 1;
          end1 = (if 0 < sz then start + sz - 1 else start)
      in start \<le> end1 \<and> enclave_start \<le> start \<and> end1 \<le> enclave_end)"

definition sgx_is_outside_enclave :: "enclave_range \<Rightarrow> addr \<Rightarrow> u64 \<Rightarrow> bool" where
  "sgx_is_outside_enclave e start sz =
     (let enclave_start = g_enclave_base e;
          enclave_end = enclave_start + g_enclave_size e - 1;
          end1 = (if 0 < sz then start + sz - 1 else start)
      in start \<le> end1 \<and> (end1 < enclave_start \<or> enclave_end < start))"

text \<open>
  What the two checks mean, on natural numbers: the bytes of a buffer (an empty buffer counts as
  the one byte at its address, as the code does) and the bytes of the enclave. The loader gives an
  enclave a non-empty range that does not wrap around the address space.
\<close>

definition extent :: "u64 \<Rightarrow> nat" where
  "extent n = max 1 (unat n)"

definition buffer_bytes :: "addr \<Rightarrow> u64 \<Rightarrow> nat set" where
  "buffer_bytes a n = {unat a ..< unat a + extent n}"

definition enclave_bytes :: "enclave_range \<Rightarrow> nat set" where
  "enclave_bytes e = {unat (g_enclave_base e) ..< unat (g_enclave_base e) + unat (g_enclave_size e)}"

definition enclave_range_wf :: "enclave_range \<Rightarrow> bool" where
  "enclave_range_wf e \<longleftrightarrow>
     0 < g_enclave_size e \<and> unat (g_enclave_base e) + unat (g_enclave_size e) \<le> 2 ^ 64"

lemma extent_pos: "0 < extent n"
  by (simp add: extent_def)

lemma unat_add_minus_one:
  "0 < n \<Longrightarrow> unat (a + n - 1 :: u64) = (unat a + unat n - 1) mod 2 ^ 64"
proof -
  assume "0 < n"
  then have n: "0 < unat n" by (simp add: word_less_nat_alt)
  have "a + n - 1 = of_nat (unat a + unat n - 1)"
    using n by (simp add: of_nat_diff)
  then show ?thesis by (simp add: unat_of_nat)
qed

lemma unat_enclave_end:
  "enclave_range_wf e \<Longrightarrow>
   unat (g_enclave_base e + g_enclave_size e - 1) = unat (g_enclave_base e) + unat (g_enclave_size e) - 1"
  by (auto simp: enclave_range_wf_def unat_add_minus_one)

lemma unat_buffer_end:
  assumes "0 < n"
  shows "a \<le> a + n - 1 \<longleftrightarrow> unat a + unat n \<le> 2 ^ 64"
    and "unat a + unat n \<le> 2 ^ 64 \<Longrightarrow> unat (a + n - 1 :: u64) = unat a + unat n - 1"
proof -
  have n: "0 < unat n" using assms by (simp add: word_less_nat_alt)
  have a: "unat a < 2 ^ 64" "unat n < 2 ^ 64"
    by (rule unat_u64)+
  show "unat a + unat n \<le> 2 ^ 64 \<Longrightarrow> unat (a + n - 1 :: u64) = unat a + unat n - 1"
    using n a by (simp add: unat_add_minus_one [OF assms])
  show "a \<le> a + n - 1 \<longleftrightarrow> unat a + unat n \<le> 2 ^ 64"
  proof (cases "unat a + unat n \<le> 2 ^ 64")
    case True
    then show ?thesis using n a by (simp add: word_le_nat_alt unat_add_minus_one [OF assms])
  next
    case False
    then have "(unat a + unat n - 1) mod 2 ^ 64 = unat a + unat n - 1 - 2 ^ 64"
      using a by (simp add: mod_if)
    then show ?thesis using False n a by (simp add: word_le_nat_alt unat_add_minus_one [OF assms])
  qed
qed

lemma buffer_end_cases:
  fixes a n :: u64
  defines "b \<equiv> (if 0 < n then a + n - 1 else a)"
  shows "a \<le> b \<longleftrightarrow> unat a + extent n \<le> 2 ^ 64"
    and "a \<le> b \<Longrightarrow> unat b = unat a + extent n - 1"
proof -
  have a: "unat a < 2 ^ 64" by (rule unat_u64)
  show 1: "a \<le> b \<longleftrightarrow> unat a + extent n \<le> 2 ^ 64"
  proof (cases "0 < n")
    case True
    then have "extent n = unat n" by (simp add: extent_def word_less_nat_alt)
    then show ?thesis using True unat_buffer_end(1) [OF True, of a] by (simp add: b_def)
  next
    case False
    then show ?thesis using a by (simp add: b_def extent_def word_gt_0)
  qed
  show "a \<le> b \<Longrightarrow> unat b = unat a + extent n - 1"
  proof -
    assume "a \<le> b"
    show ?thesis
    proof (cases "0 < n")
      case True
      then have "extent n = unat n" by (simp add: extent_def word_less_nat_alt)
      then show ?thesis using True 1 \<open>a \<le> b\<close> unat_buffer_end(2) [OF True, of a] by (simp add: b_def)
    next
      case False
      then show ?thesis by (simp add: b_def extent_def word_gt_0)
    qed
  qed
qed

lemma within_enclave_iff:
  assumes "enclave_range_wf e"
  shows "sgx_is_within_enclave e a n \<longleftrightarrow>
    unat a + extent n \<le> 2 ^ 64 \<and> buffer_bytes a n \<subseteq> enclave_bytes e"
proof -
  have pos: "0 < unat (g_enclave_size e)" "0 < extent n"
    using assms by (simp_all add: enclave_range_wf_def word_less_nat_alt extent_pos)
  have "buffer_bytes a n \<subseteq> enclave_bytes e \<longleftrightarrow>
    unat (g_enclave_base e) \<le> unat a \<and>
    unat a + extent n \<le> unat (g_enclave_base e) + unat (g_enclave_size e)"
    using pos by (simp add: buffer_bytes_def enclave_bytes_def atLeastLessThan_subset_iff)
  then show ?thesis
    using buffer_end_cases [of a n] pos unat_enclave_end [OF assms]
    by (auto simp: sgx_is_within_enclave_def Let_def word_le_nat_alt)
qed

lemma outside_enclave_iff:
  assumes "enclave_range_wf e"
  shows "sgx_is_outside_enclave e a n \<longleftrightarrow>
    unat a + extent n \<le> 2 ^ 64 \<and> buffer_bytes a n \<inter> enclave_bytes e = {}"
proof -
  have pos: "0 < unat (g_enclave_size e)" "0 < extent n"
    using assms by (simp_all add: enclave_range_wf_def word_less_nat_alt extent_pos)
  have disj: "{i ..< i + k} \<inter> {j ..< j + l} = {} \<longleftrightarrow> i + k \<le> j \<or> j + l \<le> i"
    if "0 < k" "0 < l" for i j k l :: nat
  proof
    assume e: "{i ..< i + k} \<inter> {j ..< j + l} = {}"
    have "i \<in> {i ..< i + k}" "j \<in> {j ..< j + l}" using that by auto
    with e have "i \<notin> {j ..< j + l}" "j \<notin> {i ..< i + k}" by blast+
    then show "i + k \<le> j \<or> j + l \<le> i" by auto
  qed auto
  have "buffer_bytes a n \<inter> enclave_bytes e = {} \<longleftrightarrow>
    unat a + extent n \<le> unat (g_enclave_base e) \<or>
    unat (g_enclave_base e) + unat (g_enclave_size e) \<le> unat a"
    using pos by (simp only: buffer_bytes_def enclave_bytes_def disj)
  then show ?thesis
    using buffer_end_cases [of a n] pos unat_enclave_end [OF assms]
    by (auto simp: sgx_is_outside_enclave_def Let_def word_le_nat_alt word_less_nat_alt)
qed

text \<open>C1. For an enclave whose range is not empty and does not wrap around, the within-check
  accepts a buffer exactly when the buffer does not wrap around and all its bytes are in the
  enclave, the outside-check exactly when the buffer does not wrap around and none of its bytes is,
  and no buffer passes both.\<close>

theorem sgx_range_checks_exact:
  assumes "enclave_range_wf e"
  shows "(sgx_is_within_enclave e a n \<longleftrightarrow>
      unat a + extent n \<le> 2 ^ 64 \<and> buffer_bytes a n \<subseteq> enclave_bytes e)
    \<and> (sgx_is_outside_enclave e a n \<longleftrightarrow>
      unat a + extent n \<le> 2 ^ 64 \<and> buffer_bytes a n \<inter> enclave_bytes e = {})
    \<and> \<not> (sgx_is_within_enclave e a n \<and> sgx_is_outside_enclave e a n)"
proof -
  have "buffer_bytes a n \<noteq> {}" using extent_pos [of n] by (auto simp: buffer_bytes_def)
  with assms show ?thesis by (auto simp: within_enclave_iff outside_enclave_iff)
qed

theorem sgx_range_checks_exact_witness:
  "(let e = \<lparr>g_enclave_base = 0x10000, g_enclave_size = 0x4000\<rparr>
    in enclave_range_wf e
     \<and> sgx_is_within_enclave e 0x13ff8 8 \<and> \<not> sgx_is_within_enclave e 0x13ff8 9
     \<and> \<not> sgx_is_outside_enclave e 0x13ff8 9 \<and> sgx_is_outside_enclave e 0x14000 0xffffffffffffffff = False)"
proof -
  let ?e = "\<lparr>g_enclave_base = 0x10000, g_enclave_size = 0x4000\<rparr>"
  have wf: "enclave_range_wf ?e" by (simp add: enclave_range_wf_def)
  show ?thesis
    using wf
    by (simp add: Let_def sgx_range_checks_exact [OF wf, THEN conjunct1]
        sgx_range_checks_exact [OF wf, THEN conjunct2, THEN conjunct1] buffer_bytes_def enclave_bytes_def extent_def
        Int_atLeastLessThan)
qed

section \<open>Allocation on the untrusted stack\<close>

text \<open>
  \<^verbatim>\<open>sgx_ocalloc\<close> lowers the untrusted stack pointer kept in the first SSA frame
  (\<^verbatim>\<open>ssa_gpr->sp_u\<close>) and writes one zero byte into every page the new frame touches, from the
  highest page down; \<^verbatim>\<open>sp_u\<close> is set to each page before its probe. The loop is
  \<open>ocalloc_probe\<close>: the list of pages it writes, or \<open>None\<close> if it never ends.
\<close>

partial_function (option) ocalloc_probe :: "u64 \<Rightarrow> u64 \<Rightarrow> addr list option" where
  "ocalloc_probe page last_page =
     (if last_page \<le> page
      then Option.bind (ocalloc_probe (page - SE_PAGE_SIZE) last_page) (\<lambda>ps. Some (page # ps))
      else Some [])"

definition OC_ROUND :: u64 where
  "OC_ROUND = 16"

text \<open>The result is the returned address, the new \<^verbatim>\<open>sp_u\<close> and the bytes written.\<close>

definition sgx_ocalloc :: "enclave_range \<Rightarrow> u64 \<Rightarrow> u64 \<Rightarrow> (addr \<times> u64 \<times> addr list) exec option" where
  "sgx_ocalloc e sp_u sz =
     (if \<not> sgx_is_outside_enclave e sp_u 8 then Some (Inl Abort)
      else if sp_u < sz then Some (Inl Abort)
      else
        let addr = (sp_u - sz) AND NOT (OC_ROUND - 1)
        in if \<not> sgx_is_outside_enclave e addr sz then Some (Inl Abort)
           else
             let first_page = TRIM_TO_PAGE (sp_u - 1);
                 last_page = TRIM_TO_PAGE addr
             in if last_page = 0 then Some (Inl Abort)
                else map_option (\<lambda>ps. Inr (addr, addr, ps)) (ocalloc_probe first_page last_page))"

text \<open>
  \<^verbatim>\<open>sgx_ocfree\<close> restores the stack pointer the ECALL frame saved three words below
  \<^verbatim>\<open>last_sp\<close>; \<open>mem\<close> reads a word of the trusted stack.
\<close>

definition sgx_ocfree :: "enclave_range \<Rightarrow> (addr \<Rightarrow> u64) \<Rightarrow> addr \<Rightarrow> u64 exec" where
  "sgx_ocfree e mem last_sp =
     (let usp = mem (last_sp - 24)
      in if \<not> sgx_is_outside_enclave e usp 8 then Inl Abort else Inr usp)"

text \<open>The probe loop ends and writes the pages from first to last in descending order.\<close>

lemma ocalloc_probe_unfold:
  "ocalloc_probe page last_page =
     (if last_page \<le> page
      then map_option ((#) page) (ocalloc_probe (page - SE_PAGE_SIZE) last_page) else Some [])"
  by (subst ocalloc_probe.simps) (simp add: map_option_case split: Option.bind_splits option.splits)

lemma ocalloc_probe_pages:
  assumes "unat page mod 4096 = 0" "unat last_page mod 4096 = 0" "last_page \<noteq> 0"
  shows "\<exists>ps. ocalloc_probe page last_page = Some ps \<and>
    map unat ps = rev (map (\<lambda>k. k * 4096) [unat last_page div 4096 ..< Suc (unat page div 4096)])"
  using assms
proof (induction "unat page" arbitrary: page rule: less_induct)
  case less
  let ?l = "unat last_page div 4096" and ?p = "unat page div 4096"
  have l: "unat last_page = ?l * 4096" "0 < ?l"
    using less.prems by (simp_all add: div_greater_zero_iff dvd_imp_le word_neq_0_conv mod_eq_0_iff_dvd
        unat_gt_0 dvd_div_mult_self)
  have p: "unat page = ?p * 4096"
    using less.prems by (simp add: mod_eq_0_iff_dvd)
  show ?case
  proof (cases "last_page \<le> page")
    case False
    then have "?p * 4096 < ?l * 4096" using l p by (simp add: word_le_nat_alt)
    then have "?p < ?l" by simp
    with False show ?thesis by (simp add: ocalloc_probe_unfold)
  next
    case True
    then have lp: "?l \<le> ?p" using div_le_mono by (simp add: word_le_nat_alt div_le_mono)
    with l p have ge: "4096 \<le> unat page" by auto
    then have sub: "unat (page - SE_PAGE_SIZE) = unat page - 4096"
      by (simp add: unat_sub word_le_nat_alt)
    moreover have "unat page - 4096 = (?p - 1) * 4096" using p by (simp add: diff_mult_distrib)
    ultimately have sub': "unat (page - SE_PAGE_SIZE) div 4096 = ?p - 1"
      "unat (page - SE_PAGE_SIZE) mod 4096 = 0"
      by simp_all
    have "unat (page - SE_PAGE_SIZE) < unat page" using sub ge by simp
    then have "\<exists>ps. ocalloc_probe (page - SE_PAGE_SIZE) last_page = Some ps \<and>
      map unat ps = rev (map (\<lambda>k. k * 4096) [?l ..< Suc (unat (page - SE_PAGE_SIZE) div 4096)])"
      using sub'(2) less.prems(2,3) by (rule less.hyps)
    moreover have "Suc (unat (page - SE_PAGE_SIZE) div 4096) = ?p" using sub'(1) lp l by simp
    ultimately obtain ps where ps: "ocalloc_probe (page - SE_PAGE_SIZE) last_page = Some ps"
      "map unat ps = rev (map (\<lambda>k. k * 4096) [?l ..< ?p])"
      by auto
    have "[?l ..< Suc ?p] = [?l ..< ?p] @ [?p]" using lp by simp
    then show ?thesis using ps True p by (simp add: ocalloc_probe_unfold)
  qed
qed

lemma round_down_bounds: "(d - d mod 16) + s \<le> d + s" "d + s < (d - d mod 16) + s + 16" for d s :: nat
  by (simp_all add: less_diff_conv2 trans_less_add2)

lemma ocalloc_addr:
  assumes "sz \<le> sp_u"
  defines "a \<equiv> (sp_u - sz) AND NOT (OC_ROUND - 1) :: u64"
  shows "unat a mod 16 = 0" "unat a + unat sz \<le> unat sp_u" "unat sp_u < unat a + unat sz + 16"
proof -
  have a: "unat a = (unat sp_u - unat sz) - (unat sp_u - unat sz) mod 16"
    using unat_and_not_mask [of "sp_u - sz" 4] assms
    by (simp add: OC_ROUND_def mask_eq_exp_minus_1 unat_sub)
  then show "unat a mod 16 = 0" by (simp add: minus_mod_eq_mult_div)
  have "unat sz \<le> unat sp_u" using assms by (simp add: word_le_nat_alt)
  then have "unat sp_u - unat sz + unat sz = unat sp_u" by simp
  with round_down_bounds [of "unat sp_u - unat sz" "unat sz"]
  show "unat a + unat sz \<le> unat sp_u" "unat sp_u < unat a + unat sz + 16"
    by (simp_all only: a)
qed

lemma ocalloc_probe_total:
  assumes "TRIM_TO_PAGE a \<noteq> 0"
  shows "\<exists>ps. ocalloc_probe (TRIM_TO_PAGE b) (TRIM_TO_PAGE a) = Some ps \<and>
    unat ` set ps = (\<lambda>k. k * 4096) ` {unat a div 4096 .. unat b div 4096}"
proof -
  have al: "unat (TRIM_TO_PAGE x) mod 4096 = 0" "unat (TRIM_TO_PAGE x) div 4096 = unat x div 4096" for x
    by (simp_all add: unat_TRIM_TO_PAGE minus_mod_eq_mult_div)
  obtain ps where "ocalloc_probe (TRIM_TO_PAGE b) (TRIM_TO_PAGE a) = Some ps" and
    ps: "map unat ps = rev (map (\<lambda>k. k * 4096) [unat a div 4096 ..< Suc (unat b div 4096)])"
    using ocalloc_probe_pages [OF al(1) al(1) assms] by (auto simp only: al(2))
  moreover have "unat ` set ps = (\<lambda>k. k * 4096) ` {unat a div 4096 .. unat b div 4096}"
    using arg_cong [OF ps, of set]
    by (simp only: set_map set_rev set_upt atLeastLessThanSuc_atLeastAtMost)
  ultimately show ?thesis by auto
qed

text \<open>A page that starts at or above \<open>a\<close>'s page and below \<open>sp\<close> touches the frame, its last bytes
  before the stack pointer, or the word at the stack pointer.\<close>

lemma probed_page_outside:
  assumes wf: "enclave_range_wf e"
    and pg: "unat (g_enclave_base e) mod 4096 = 0" "unat (g_enclave_size e) mod 4096 = 0"
    and sp: "buffer_bytes sp 8 \<inter> enclave_bytes e = {}"
    and fr: "buffer_bytes a sz \<inter> enclave_bytes e = {}"
    and near: "unat a + unat sz \<le> unat sp" "unat sp < unat a + unat sz + 16"
    and k: "unat a div 4096 \<le> k" "k * 4096 < unat sp"
  shows "k * 4096 \<notin> enclave_bytes e"
proof
  assume in_e: "k * 4096 \<in> enclave_bytes e"
  obtain b s where bs: "unat (g_enclave_base e) = b * 4096" "unat (g_enclave_size e) = s * 4096"
    using pg by (metis mod_eq_0_iff_dvd dvd_def mult.commute)
  with in_e have "b \<le> k" "k < b + s" by (auto simp: enclave_bytes_def)
  then have page: "x \<in> enclave_bytes e" if "x div 4096 = k" for x
  proof -
    have "k * 4096 \<le> x" "x < Suc k * 4096" using that div_mult_mod_eq [of x 4096] by auto
    moreover have "b * 4096 \<le> k * 4096" "Suc k * 4096 \<le> (b + s) * 4096"
      using \<open>b \<le> k\<close> \<open>k < b + s\<close> by (intro mult_le_mono1; simp)+
    ultimately show ?thesis using bs by (auto simp: enclave_bytes_def add_mult_distrib)
  qed
  show False
  proof (cases "k * 4096 \<le> unat a")
    case True
    then have "unat a div 4096 = k" using k(1) by (simp add: le_antisym less_eq_div_iff_mult_less_eq)
    then have "unat a \<in> enclave_bytes e" by (rule page)
    moreover have "unat a \<in> buffer_bytes a sz" using extent_pos [of sz] by (simp add: buffer_bytes_def)
    ultimately show False using fr by blast
  next
    case False
    show False
    proof (cases "k * 4096 < unat a + unat sz")
      case True
      then have "k * 4096 \<in> buffer_bytes a sz" using False by (auto simp: buffer_bytes_def extent_def)
      with in_e fr show False by blast
    next
      case out: False
      then have "unat sp div 4096 = k" using near k(2) by (intro div_nat_eqI) auto
      then have "unat sp \<in> enclave_bytes e" by (rule page)
      moreover have "unat sp \<in> buffer_bytes sp 8" by (simp add: buffer_bytes_def extent_def)
      ultimately show False using sp by blast
    qed
  qed
qed

lemma sgx_ocalloc_returns: "\<exists>r. sgx_ocalloc e sp_u sz = Some r"
  using ocalloc_probe_total [of "(sp_u - sz) AND NOT (OC_ROUND - 1)" "sp_u - 1"]
  by (cases "TRIM_TO_PAGE ((sp_u - sz) AND NOT (OC_ROUND - 1)) = 0") (auto simp: sgx_ocalloc_def Let_def)

lemma sgx_ocalloc_InrD:
  assumes "sgx_ocalloc e sp_u sz = Some (Inr (a, sp', ps))"
  shows "sp' = a \<and> sz \<le> sp_u \<and> a = (sp_u - sz) AND NOT (OC_ROUND - 1)
    \<and> sgx_is_outside_enclave e sp_u 8 \<and> sgx_is_outside_enclave e a sz \<and> TRIM_TO_PAGE a \<noteq> 0
    \<and> ocalloc_probe (TRIM_TO_PAGE (sp_u - 1)) (TRIM_TO_PAGE a) = Some ps"
proof -
  define b where "b = (sp_u - sz) AND NOT (OC_ROUND - 1)"
  show ?thesis
    using assms unfolding sgx_ocalloc_def Let_def b_def [symmetric]
    by (simp add: linorder_not_less split: if_splits) metis
qed

text \<open>C2. \<^verbatim>\<open>sgx_ocalloc\<close> always comes back (its probe loop ends). When it does not abort, the
  buffer it returns is 16-byte aligned, ends at or below the old untrusted stack pointer, has no
  byte in the (page-granular) enclave, becomes the new stack pointer, and the bytes it writes are
  the first bytes of exactly the pages from the buffer to the old stack pointer, none of them in
  the enclave.\<close>

theorem sgx_ocalloc_outside:
  assumes wf: "enclave_range_wf e"
    and pg: "unat (g_enclave_base e) mod 4096 = 0" "unat (g_enclave_size e) mod 4096 = 0"
  shows "\<exists>r. sgx_ocalloc e sp_u sz = Some r \<and>
    (\<forall>a sp' ps. r = Inr (a, sp', ps) \<longrightarrow>
       sp' = a \<and> unat a mod 16 = 0 \<and> unat a + unat sz \<le> unat sp_u
       \<and> buffer_bytes a sz \<inter> enclave_bytes e = {}
       \<and> unat ` set ps = (\<lambda>k. k * 4096) ` {unat a div 4096 .. (unat sp_u - 1) div 4096}
       \<and> unat ` set ps \<inter> enclave_bytes e = {})"
proof -
  have "sp' = a \<and> unat a mod 16 = 0 \<and> unat a + unat sz \<le> unat sp_u
    \<and> buffer_bytes a sz \<inter> enclave_bytes e = {}
    \<and> unat ` set ps = (\<lambda>k. k * 4096) ` {unat a div 4096 .. (unat sp_u - 1) div 4096}
    \<and> unat ` set ps \<inter> enclave_bytes e = {}"
    if ok: "sgx_ocalloc e sp_u sz = Some (Inr (a, sp', ps))" for a sp' ps
  proof -
    from sgx_ocalloc_InrD [OF ok]
    have *: "sp' = a" "sz \<le> sp_u" "a = (sp_u - sz) AND NOT (OC_ROUND - 1)"
      "sgx_is_outside_enclave e sp_u 8" "sgx_is_outside_enclave e a sz" "TRIM_TO_PAGE a \<noteq> 0"
      "ocalloc_probe (TRIM_TO_PAGE (sp_u - 1)) (TRIM_TO_PAGE a) = Some ps"
      by blast+
    have al: "unat a mod 16 = 0"
      and near: "unat a + unat sz \<le> unat sp_u" "unat sp_u < unat a + unat sz + 16"
      using ocalloc_addr [OF *(2)] *(3) by simp_all
    have "unat a \<noteq> 0" using *(6) by (auto simp: TRIM_TO_PAGE_def unat_eq_0)
    then have "0 < unat sp_u" using near by simp
    then have sp1: "unat (sp_u - 1) = unat sp_u - 1"
      by (simp add: unat_sub word_le_nat_alt)
    have ps: "unat ` set ps = (\<lambda>k. k * 4096) ` {unat a div 4096 .. (unat sp_u - 1) div 4096}"
      using ocalloc_probe_total [OF *(6), of "sp_u - 1"] *(7) sp1 by auto
    have out: "buffer_bytes sp_u 8 \<inter> enclave_bytes e = {}" "buffer_bytes a sz \<inter> enclave_bytes e = {}"
      using *(4,5) by (simp_all add: outside_enclave_iff [OF wf])
    have "k * 4096 \<notin> enclave_bytes e" if "unat a div 4096 \<le> k" "k \<le> (unat sp_u - 1) div 4096" for k
    proof (rule probed_page_outside [OF wf pg out near that(1)])
      have "k * 4096 \<le> (unat sp_u - 1) div 4096 * 4096" using that(2) by simp
      also have "\<dots> \<le> unat sp_u - 1" by simp
      finally show "k * 4096 < unat sp_u" using \<open>0 < unat sp_u\<close> by linarith
    qed
    with ps out near *(1) al show ?thesis by auto
  qed
  moreover obtain r where "sgx_ocalloc e sp_u sz = Some r"
    using sgx_ocalloc_returns by blast
  ultimately show ?thesis by blast
qed

theorem sgx_ocalloc_outside_witness:
  "sgx_ocalloc \<lparr>g_enclave_base = 0x10000, g_enclave_size = 0x4000\<rparr> 0x7010 0x20 =
     Some (Inr (0x6ff0, 0x6ff0, [0x7000, 0x6000]))
   \<and> buffer_bytes 0x6ff0 0x20 \<inter>
     enclave_bytes \<lparr>g_enclave_base = 0x10000, g_enclave_size = 0x4000\<rparr> = {}"
proof -
  let ?e = "\<lparr>g_enclave_base = 0x10000, g_enclave_size = 0x4000\<rparr>"
  have wf: "enclave_range_wf ?e" by (simp add: enclave_range_wf_def)
  have pg: "unat (g_enclave_base ?e) mod 4096 = 0" "unat (g_enclave_size ?e) mod 4096 = 0" by simp_all
  have ev: "sgx_ocalloc ?e 0x7010 0x20 = Some (Inr (0x6ff0, 0x6ff0, [0x7000, 0x6000]))"
    by (simp add: sgx_ocalloc_def sgx_is_outside_enclave_def Let_def OC_ROUND_def TRIM_TO_PAGE_def
        ocalloc_probe_unfold)
  from sgx_ocalloc_outside [OF wf pg, of "0x7010" "0x20", unfolded ev]
  have "buffer_bytes 0x6ff0 0x20 \<inter> enclave_bytes ?e = {}" by simp
  with ev show ?thesis by blast
qed

section \<open>Random bytes\<close>

text \<open>
  \<^verbatim>\<open>sgx_read_rand\<close> fills a buffer from RDRAND, four bytes at a time. The instruction is a
  parameter: \<open>rdrand k\<close> is the outcome of the \<open>k\<close>-th \<^verbatim>\<open>do_rdrand\<close>, \<open>None\<close> when all its retries
  fail. The loop returns the status and the bytes written so far.
\<close>

definition le_bytes32 :: "u32 \<Rightarrow> u8 list" where
  "le_bytes32 w = [ucast w, ucast (drop_bit 8 w), ucast (drop_bit 16 w), ucast (drop_bit 24 w)]"

function read_rand_loop :: "(nat \<Rightarrow> u32 option) \<Rightarrow> nat \<Rightarrow> nat \<Rightarrow> sgx_status \<times> u8 list" where
  "read_rand_loop rdrand k length_in_bytes =
     (if length_in_bytes = 0 then (SGX_SUCCESS, [])
      else case rdrand k of
             None \<Rightarrow> (SGX_ERROR_UNEXPECTED, [])
           | Some rand_num \<Rightarrow>
               let sz = (if length_in_bytes < 4 then length_in_bytes else 4);
                   (status, rest) = read_rand_loop rdrand (Suc k) (length_in_bytes - sz)
               in (status, take sz (le_bytes32 rand_num) @ rest))"
  by pat_completeness auto
termination
  by (relation "measure (\<lambda>(_, _, n). n)") (auto split: if_splits)

declare read_rand_loop.simps [simp del]

definition sgx_read_rand ::
  "enclave_range \<Rightarrow> (nat \<Rightarrow> u32 option) \<Rightarrow> addr \<Rightarrow> u64 \<Rightarrow> sgx_status \<times> u8 list" where
  "sgx_read_rand e rdrand rand length_in_bytes =
     (if rand = NULL \<or> length_in_bytes = 0 then (SGX_ERROR_INVALID_PARAMETER, [])
      else if \<not> sgx_is_within_enclave e rand length_in_bytes
            \<and> \<not> sgx_is_outside_enclave e rand length_in_bytes
        then (SGX_ERROR_INVALID_PARAMETER, [])
      else read_rand_loop rdrand 0 (unat length_in_bytes))"

lemma length_le_bytes32 [simp]: "length (le_bytes32 w) = 4"
  by (simp add: le_bytes32_def)

lemma upt_shift: "[Suc k ..< Suc k + n] = map Suc [k ..< k + n]"
  by (simp add: map_Suc_upt)

lemma read_rand_loop_success:
  "fst (read_rand_loop rdrand k n) = SGX_SUCCESS \<longleftrightarrow> (\<forall>i < (n + 3) div 4. rdrand (k + i) \<noteq> None)"
  (is ?S)
  and read_rand_loop_bytes:
  "fst (read_rand_loop rdrand k n) = SGX_SUCCESS \<Longrightarrow>
   snd (read_rand_loop rdrand k n) =
     take n (concat (map (\<lambda>i. le_bytes32 (the (rdrand (k + i)))) [0 ..< (n + 3) div 4]))"
  (is "_ \<Longrightarrow> ?B")
proof -
  have "?S \<and> (fst (read_rand_loop rdrand k n) = SGX_SUCCESS \<longrightarrow> ?B)"
  proof (induction rdrand k n rule: read_rand_loop.induct)
    case (1 rdrand k n)
    show ?case
    proof (cases "n = 0")
      case True
      then show ?thesis by (simp add: read_rand_loop.simps)
    next
      case n: False
      define m where "m = n - (if n < 4 then n else 4)"
      have step: "(n + 3) div 4 = Suc ((m + 3) div 4)"
        using n by (auto simp: m_def)
      have all: "(\<forall>i < Suc j. P i) \<longleftrightarrow> P 0 \<and> (\<forall>i < j. P (Suc i))" for j and P :: "nat \<Rightarrow> bool"
        by (auto simp: less_Suc_eq_0_disj)
      show ?thesis
      proof (cases "rdrand k")
        case None
        then show ?thesis using n by (simp add: read_rand_loop.simps [of rdrand k n] step all)
      next
        case (Some w)
        have IH: "(fst (read_rand_loop rdrand (Suc k) m) = SGX_SUCCESS \<longleftrightarrow>
            (\<forall>i < (m + 3) div 4. rdrand (Suc k + i) \<noteq> None)) \<and>
          (fst (read_rand_loop rdrand (Suc k) m) = SGX_SUCCESS \<longrightarrow>
            snd (read_rand_loop rdrand (Suc k) m) =
            take m (concat (map (\<lambda>i. le_bytes32 (the (rdrand (Suc k + i)))) [0 ..< (m + 3) div 4])))"
          using "1.IH" [OF n Some refl] unfolding m_def by blast
        have len: "take n (le_bytes32 w @ ys) = take (if n < 4 then n else 4) (le_bytes32 w) @ take m ys" for ys
          by (simp add: m_def)
        have unf: "read_rand_loop rdrand k n =
          (fst (read_rand_loop rdrand (Suc k) m),
           take (if n < 4 then n else 4) (le_bytes32 w) @ snd (read_rand_loop rdrand (Suc k) m))"
          using n Some by (simp add: read_rand_loop.simps [of rdrand k n] Let_def m_def split_beta)
        have cat: "concat (map (\<lambda>i. le_bytes32 (the (rdrand (k + i)))) [0 ..< Suc ((m + 3) div 4)]) =
          le_bytes32 w @ concat (map (\<lambda>i. le_bytes32 (the (rdrand (Suc k + i)))) [0 ..< (m + 3) div 4])"
          using Some by (simp add: upt_conv_Cons map_Suc_upt [symmetric] comp_def del: upt_Suc)
        have fst_eq: "fst (read_rand_loop rdrand k n) = fst (read_rand_loop rdrand (Suc k) m)"
          by (simp add: unf)
        have "fst (read_rand_loop rdrand k n) = SGX_SUCCESS \<longleftrightarrow>
            (\<forall>i < (n + 3) div 4. rdrand (k + i) \<noteq> None)"
          unfolding fst_eq using IH Some by (simp add: step all)
        moreover have "snd (read_rand_loop rdrand k n) =
            take n (concat (map (\<lambda>i. le_bytes32 (the (rdrand (k + i)))) [0 ..< (n + 3) div 4]))"
          if "fst (read_rand_loop rdrand k n) = SGX_SUCCESS"
          unfolding step cat len unf snd_conv
          by (rule arg_cong [where f = "append _"], rule IH [THEN conjunct2, THEN mp])
            (use that in \<open>simp only: fst_eq\<close>)
        ultimately show ?thesis by blast
      qed
    qed
  qed
  then show ?S and "fst (read_rand_loop rdrand k n) = SGX_SUCCESS \<Longrightarrow> ?B" by blast+
qed

lemma read_rand_loop_length:
  "fst (read_rand_loop rdrand k n) = SGX_SUCCESS \<Longrightarrow> length (snd (read_rand_loop rdrand k n)) = n"
proof -
  assume ok: "fst (read_rand_loop rdrand k n) = SGX_SUCCESS"
  have "length (concat (map (\<lambda>i. le_bytes32 (the (rdrand (k + i)))) [0 ..< j])) = 4 * j" for j
    by (induction j) simp_all
  moreover have "n \<le> 4 * ((n + 3) div 4)" by presburger
  ultimately show ?thesis by (simp add: read_rand_loop_bytes [OF ok])
qed

lemma read_rand_loop_status:
  "fst (read_rand_loop rdrand k n) = SGX_SUCCESS \<or> fst (read_rand_loop rdrand k n) = SGX_ERROR_UNEXPECTED"
proof (induction rdrand k n rule: read_rand_loop.induct)
  case (1 rdrand k n)
  show ?case
  proof (cases "n = 0 \<or> rdrand k = None")
    case True
    then show ?thesis by (auto simp: read_rand_loop.simps [of rdrand k n])
  next
    case False
    then obtain w where w: "n \<noteq> 0" "rdrand k = Some w" by auto
    from "1.IH" [OF w refl] w show ?thesis
      by (simp add: read_rand_loop.simps [of rdrand k n] Let_def split_beta)
  qed
qed

text \<open>
  C3. \<^verbatim>\<open>sgx_read_rand\<close> succeeds exactly when the arguments are valid (a non-null, non-empty buffer that
  does not straddle the enclave boundary) and every RDRAND it needs, one per started group of four
  bytes, delivers; the buffer then holds exactly the requested number of bytes, and they are the
  little-endian bytes of the successive draws, cut at the requested length. Otherwise the status
  tells the bad argument from the failed instruction.
\<close>
theorem sgx_read_rand_exact:
  fixes e :: enclave_range and rdrand :: "nat \<Rightarrow> u32 option" and rand :: addr and len :: u64
  defines "r \<equiv> sgx_read_rand e rdrand rand len"
    and "valid \<equiv> rand \<noteq> NULL \<and> len \<noteq> 0 \<and>
      (sgx_is_within_enclave e rand len \<or> sgx_is_outside_enclave e rand len)"
    and "draws \<equiv> (unat len + 3) div 4"
  shows "(fst r = SGX_SUCCESS \<longleftrightarrow> valid \<and> (\<forall>i < draws. rdrand i \<noteq> None))
    \<and> (fst r = SGX_SUCCESS \<longrightarrow> length (snd r) = unat len \<and>
         snd r = take (unat len) (concat (map (\<lambda>i. le_bytes32 (the (rdrand i))) [0 ..< draws])))
    \<and> (fst r \<noteq> SGX_SUCCESS \<longrightarrow>
         fst r = (if valid then SGX_ERROR_UNEXPECTED else SGX_ERROR_INVALID_PARAMETER))"
proof (cases valid)
  case True
  then have r: "r = read_rand_loop rdrand 0 (unat len)"
    unfolding r_def valid_def sgx_read_rand_def by auto
  show ?thesis
    using True read_rand_loop_success [of rdrand 0 "unat len"] read_rand_loop_bytes [of rdrand 0 "unat len"]
      read_rand_loop_length [of rdrand 0 "unat len"] read_rand_loop_status [of rdrand 0 "unat len"]
    unfolding r draws_def by (simp only: add_0 if_True) metis
next
  case False
  then have "r = (SGX_ERROR_INVALID_PARAMETER, [])"
    unfolding r_def valid_def sgx_read_rand_def by auto
  with False show ?thesis by simp
qed

theorem sgx_read_rand_exact_witness:
  defines "e \<equiv> \<lparr>g_enclave_base = 0x100000, g_enclave_size = 0x100000\<rparr>"
  shows "sgx_read_rand e (\<lambda>i. Some (word_of_nat i + 0x04030201)) 0x110000 6
      = (SGX_SUCCESS, [1, 2, 3, 4, 2, 2])
    \<and> length (snd (sgx_read_rand e (\<lambda>i. Some (word_of_nat i + 0x04030201)) 0x110000 6)) = 6"
proof -
  have v: "sgx_is_within_enclave e 0x110000 6"
    by (simp add: e_def sgx_is_within_enclave_def)
  have u: "[0 ..< 2] = [0, Suc 0]" by (simp add: numeral_2_eq_2)
  note t = sgx_read_rand_exact [of e "\<lambda>i. Some (word_of_nat i + 0x04030201)" "0x110000" 6]
  from t v have s: "fst (sgx_read_rand e (\<lambda>i. Some (word_of_nat i + 0x04030201)) 0x110000 6) = SGX_SUCCESS"
    by simp
  with t have "snd (sgx_read_rand e (\<lambda>i. Some (word_of_nat i + 0x04030201)) 0x110000 6) = [1, 2, 3, 4, 2, 2]"
    by (simp add: u le_bytes32_def)
  with s show ?thesis by (simp add: prod_eq_iff)
qed

end
