(* ===== verification/Trts_Edmm.thy ===== *)
theory Trts_Edmm
  imports Trts_Layout Trts_Range
begin

text \<open>
  Run-time addition and removal of enclave pages (\<^verbatim>\<open>sdk/trts/trts_add_trim.cpp\<close>): acceptance of the pages
  removed after initialization, the checks that a range belongs to a dynamic region of the metadata,
  adding and trimming pages, and creating a thread dynamically.
\<close>

definition and_then :: "addr list exec option \<Rightarrow> addr list \<Rightarrow> addr list exec option" where
  "and_then m acc = (case m of None \<Rightarrow> None | Some (Inl e) \<Rightarrow> Some (Inl e) | Some (Inr ps) \<Rightarrow> Some (Inr (acc @ ps)))"

section \<open>Pages removed after initialization\<close>

definition accept_post_remove ::
  "global_data \<Rightarrow> eaccept \<Rightarrow> nat \<Rightarrow> nat \<Rightarrow> u64 \<Rightarrow> addr list \<Rightarrow> addr list exec option" where
  "accept_post_remove g eaccept =
     layout_walk (layout_table g) (\<lambda>acc l offset.
       if l_attributes l AND PAGE_ATTR_POST_REMOVE \<noteq> 0
       then let start_addr = l_rva l + offset + image_base g in
            and_then (sgx_accept_forward eaccept (SI_FLAG_TRIM OR SI_FLAG_MODIFIED) start_addr
                        (start_addr + page_bytes (l_page_count l))) acc
       else Some (Inr acc))"

section \<open>Dynamic regions\<close>

text \<open>\<^verbatim>\<open>struct dynamic_flags_attributes\<close>; a check that fails (-1) is \<open>None\<close>.\<close>

record dynamic_flags_attributes =
  fa_si_flags :: u64
  fa_attributes :: u16

text \<open>The globals of the reserved-memory component (\<^verbatim>\<open>rsrv_mem_base\<close>, \<^verbatim>\<open>rsrv_mem_size\<close>, \<^verbatim>\<open>rsrv_mem_min_size\<close>).\<close>

record rsrv_globals =
  rsrv_mem_base :: u64
  rsrv_mem_size :: u64
  rsrv_mem_min_size :: u64

definition check_heap_dyn_range :: "global_data \<Rightarrow> u64 \<Rightarrow> u64 \<Rightarrow> dynamic_flags_attributes option" where
  "check_heap_dyn_range g addr page_count =
     (let heap_dyn_start = get_heap_base g + get_heap_min_size g;
          heap_dyn_size = get_heap_size g - get_heap_min_size g in
      if addr \<ge> heap_dyn_start \<and> addr + push_bit SE_PAGE_SHIFT page_count \<le> heap_dyn_start + heap_dyn_size
      then Some \<lparr>fa_si_flags = SI_FLAGS_RW, fa_attributes = PAGE_ATTR_POST_ADD\<rparr> else None)"

definition check_rsrv_dyn_range :: "rsrv_globals \<Rightarrow> u64 \<Rightarrow> u64 \<Rightarrow> dynamic_flags_attributes option" where
  "check_rsrv_dyn_range r addr page_count =
     (let rsrv_mem_dyn_start = rsrv_mem_base r + rsrv_mem_min_size r;
          rsrv_mem_dyn_size = rsrv_mem_size r - rsrv_mem_min_size r in
      if addr \<ge> rsrv_mem_dyn_start
         \<and> addr + push_bit SE_PAGE_SHIFT page_count \<le> rsrv_mem_dyn_start + rsrv_mem_dyn_size
      then Some \<lparr>fa_si_flags = SI_FLAGS_RW, fa_attributes = PAGE_ATTR_POST_ADD\<rparr> else None)"

definition check_dynamic_entry_range ::
  "global_data \<Rightarrow> u64 \<Rightarrow> u64 \<Rightarrow> u16 \<Rightarrow> u64 \<Rightarrow> dynamic_flags_attributes option" where
  "check_dynamic_entry_range g addr page_count entry_id entry_offset =
     (if entry_id < LAYOUT_ID_HEAP_MIN \<or> entry_id > LAYOUT_ID_STACK_DYN_MIN then None
      else case get_dynamic_layout_by_id g entry_id of
             None \<Rightarrow> None
           | Some l \<Rightarrow>
               let entry_start_addr = image_base g + l_rva l + entry_offset in
               if addr \<ge> entry_start_addr
                  \<and> addr + push_bit SE_PAGE_SHIFT page_count \<le> entry_start_addr + page_bytes (l_page_count l)
               then Some \<lparr>fa_si_flags = l_si_flags l, fa_attributes = l_attributes l\<rparr> else None)"

definition check_utility_thread_dynamic_stack ::
  "global_data \<Rightarrow> u64 \<Rightarrow> u64 \<Rightarrow> dynamic_flags_attributes option" where
  "check_utility_thread_dynamic_stack g addr page_count =
     check_dynamic_entry_range g addr page_count LAYOUT_ID_STACK_MAX 0"

text \<open>The first result of a search loop.\<close>

fun first_some :: "('a \<Rightarrow> 'b option) \<Rightarrow> 'a list \<Rightarrow> 'b option" where
  "first_some f [] = None"
| "first_some f (x # xs) = (case f x of None \<Rightarrow> first_some f xs | Some y \<Rightarrow> Some y)"

text \<open>
  The result carries what is stored through \<^verbatim>\<open>offset\<close> (only the thread searches store there). The loop
  bound \<^verbatim>\<open>load_times + 1\<close> is computed in 32 bits.
\<close>

definition DYN_THREAD_IDS :: "u16 list" where
  "DYN_THREAD_IDS = [14, 15, 16, 17, 18]"

definition check_dynamic_range ::
  "global_data \<Rightarrow> rsrv_globals \<Rightarrow> u64 \<Rightarrow> u64 \<Rightarrow> (u64 option \<times> dynamic_flags_attributes) option" where
  "check_dynamic_range g r addr page_count =
     (if addr > SIZE_MAX - push_bit SE_PAGE_SHIFT page_count then None
      else case check_heap_dyn_range g addr page_count of
        Some fa \<Rightarrow> Some (None, fa)
      | None \<Rightarrow>
      (case check_utility_thread_dynamic_stack g addr page_count of
        Some fa \<Rightarrow> Some (None, fa)
      | None \<Rightarrow>
      (case check_rsrv_dyn_range r addr page_count of
        Some fa \<Rightarrow> Some (None, fa)
      | None \<Rightarrow>
      (case get_dynamic_layout_by_id g LAYOUT_ID_THREAD_GROUP_DYN of
        Some dt_layout \<Rightarrow>
          first_some (\<lambda>i.
            first_some (\<lambda>k.
              let entry_offset = word_of_nat k * load_step dt_layout in
              map_option (Pair (Some entry_offset)) (check_dynamic_entry_range g addr page_count i entry_offset))
              [0 ..< unat (load_times dt_layout + 1)]) DYN_THREAD_IDS
      | None \<Rightarrow>
          first_some (\<lambda>i. map_option (Pair (Some 0)) (check_dynamic_entry_range g addr page_count i 0))
            DYN_THREAD_IDS))))"

definition is_dynamic_thread :: "global_data \<Rightarrow> rsrv_globals \<Rightarrow> addr \<Rightarrow> bool" where
  "is_dynamic_thread g r tcs \<longleftrightarrow>
     tcs \<noteq> NULL \<and>
     (case check_dynamic_range g r tcs 1 of None \<Rightarrow> False | Some (_, fa) \<Rightarrow> fa_si_flags fa = SI_FLAGS_TCS)"

definition is_dynamic_thread_exist :: "global_data \<Rightarrow> bool" where
  "is_dynamic_thread_exist g \<longleftrightarrow>
     EDMM_supported g \<and> get_dynamic_layout_by_id g LAYOUT_ID_STACK_DYN_MIN \<noteq> None"

definition get_dynamic_stack_max_page :: "global_data \<Rightarrow> u32" where
  "get_dynamic_stack_max_page g =
     (case get_dynamic_layout_by_id g LAYOUT_ID_STACK_MAX of None \<Rightarrow> 0 | Some l \<Rightarrow> l_page_count l)"

section \<open>Adding and trimming pages\<close>

text \<open>The result: the return value and the pages accepted.\<close>

definition with_rc :: "int \<Rightarrow> addr list exec option \<Rightarrow> (int \<times> addr list) exec option" where
  "with_rc rc m = map_option (map_sum id (Pair rc)) m"

definition apply_pages_within_exception ::
  "global_data \<Rightarrow> rsrv_globals \<Rightarrow> eaccept \<Rightarrow> addr \<Rightarrow> u64 \<Rightarrow> (int \<times> addr list) exec option" where
  "apply_pages_within_exception g r eaccept start_address page_count =
     (if start_address = NULL then Some (Inr (-1, []))
      else case check_dynamic_range g r start_address page_count of
             None \<Rightarrow> Some (Inr (-1, []))
           | Some _ \<Rightarrow>
               with_rc 0 (sgx_accept_forward_within_exception eaccept start_address
                            (start_address + push_bit SE_PAGE_SHIFT page_count)))"

definition apply_EPC_pages ::
  "global_data \<Rightarrow> rsrv_globals \<Rightarrow> eaccept \<Rightarrow> addr \<Rightarrow> u64 \<Rightarrow> (int \<times> addr list) exec option" where
  "apply_EPC_pages g r eaccept start_address page_count =
     (if start_address = NULL then Some (Inr (-1, []))
      else case check_dynamic_range g r start_address page_count of
             None \<Rightarrow> Some (Inr (-1, []))
           | Some (_, fa) \<Rightarrow>
               let start = start_address; stop = start + push_bit SE_PAGE_SHIFT page_count in
               with_rc 0
                 (if fa_attributes fa AND PAGE_DIR_GROW_DOWN \<noteq> 0
                  then sgx_accept_forward eaccept (SI_FLAGS_RW OR SI_FLAG_PENDING) start stop
                  else sgx_accept_backward eaccept (SI_FLAGS_RW OR SI_FLAG_PENDING) start stop))"

text \<open>
  \<open>trim\<close> and \<open>commit\<close> are the results of the two OCALLs; \<open>ndebug\<close> tells whether \<^verbatim>\<open>assert\<close> is compiled out.
  The result is the return value with what was done, in the order it was done: the OCALL that asks for the
  trim of the range, the pages whose removal EACCEPT confirmed, and the OCALLs that commit a page.
\<close>

datatype trim_event = Trim_range u64 u64 | Trim_accept addr | Trim_commit addr

definition assert_rc :: "bool \<Rightarrow> int \<Rightarrow> bool" where
  "assert_rc ndebug rc \<longleftrightarrow> ndebug \<or> rc = 0"

partial_function (option) trim_commit_loop ::
  "bool \<Rightarrow> (addr \<Rightarrow> int) \<Rightarrow> u64 \<Rightarrow> u64 \<Rightarrow> int \<Rightarrow> trim_event list \<Rightarrow> (int \<times> trim_event list) exec option" where
  "trim_commit_loop ndebug commit i stop rc evs =
     (if i < stop
      then let rc = commit i in
           if \<not> assert_rc ndebug rc then Some (Inl Abort)
           else trim_commit_loop ndebug commit (i + SE_PAGE_SIZE) stop rc (evs @ [Trim_commit i])
      else Some (Inr (rc, evs)))"

definition trim_EPC_pages ::
  "global_data \<Rightarrow> rsrv_globals \<Rightarrow> bool \<Rightarrow> eaccept \<Rightarrow> (u64 \<Rightarrow> u64 \<Rightarrow> int) \<Rightarrow> (addr \<Rightarrow> int) \<Rightarrow> addr \<Rightarrow> u64 \<Rightarrow>
   (int \<times> trim_event list) exec option" where
  "trim_EPC_pages g r ndebug eaccept trim commit start_address page_count =
     (if start_address = NULL then Some (Inr (-1, []))
      else case check_dynamic_range g r start_address page_count of
             None \<Rightarrow> Some (Inr (-1, []))
           | Some _ \<Rightarrow>
               let start = start_address; stop = start + push_bit SE_PAGE_SHIFT page_count; evs = [Trim_range start stop] in
               if \<not> assert_rc ndebug (trim start stop) then Some (Inl Abort)
               else case sgx_accept_forward eaccept (SI_FLAG_TRIM OR SI_FLAG_MODIFIED) start stop of
                      None \<Rightarrow> None
                    | Some (Inl e) \<Rightarrow> Some (Inl e)
                    | Some (Inr accepted) \<Rightarrow>
                        trim_commit_loop ndebug commit start stop 0 (evs @ map Trim_accept accepted))"

section \<open>Adding a thread\<close>

text \<open>The fields of the TCS that \<^verbatim>\<open>do_add_thread\<close> adjusts; the rest is copied from the template.\<close>

record tcs_t =
  ossa :: u64
  ofs_base :: u64
  ogs_base :: u64

definition add_thread_pages ::
  "global_data \<Rightarrow> rsrv_globals \<Rightarrow> eaccept \<Rightarrow> u64 \<Rightarrow> addr list \<Rightarrow> u16 list \<Rightarrow> (int \<times> addr list) exec option" where
  "add_thread_pages g r eaccept offset acc ids =
     foldM (\<lambda>(rc, acc) i.
       if rc \<noteq> 0 then Some (Inr (rc, acc))
       else case get_dynamic_layout_by_id g i of
         None \<Rightarrow> Some (Inr (rc, acc))
       | Some l \<Rightarrow>
           if l_attributes l AND PAGE_ATTR_DYN_THREAD \<noteq> 0
           then map_option (map_sum id (\<lambda>(rc, ps). (rc, acc @ ps)))
                  (apply_EPC_pages g r eaccept (image_base g + l_rva l + offset) (ucast (l_page_count l)))
           else Some (Inr (rc, acc))) ids (0, acc)"

text \<open>
  The result: the status, the pages accepted, and the TCS as it is when the page is handed over
  (\<^verbatim>\<open>mktcs_ocall\<close> is the result of that OCALL).
\<close>

definition do_add_thread ::
  "global_data \<Rightarrow> rsrv_globals \<Rightarrow> eaccept \<Rightarrow> tcs_t \<Rightarrow> (tcs_t \<Rightarrow> int) \<Rightarrow> addr \<Rightarrow>
   (sgx_status \<times> addr list \<times> tcs_t option) exec option" where
  "do_add_thread g r eaccept tcs_template mktcs_ocall tcs =
     (case check_dynamic_range g r tcs 1 of
        None \<Rightarrow> Some (Inr (SGX_ERROR_UNEXPECTED, [], None))
      | Some (off, _) \<Rightarrow>
          let offset = (case off of None \<Rightarrow> 0 | Some off \<Rightarrow> off) in
          case get_dynamic_layout_by_id g LAYOUT_ID_TCS_DYN of
            None \<Rightarrow> Some (Inr (SGX_ERROR_UNEXPECTED, [], None))
          | Some tcs_layout \<Rightarrow>
              if image_base g + l_rva tcs_layout + offset \<noteq> tcs
              then Some (Inr (SGX_ERROR_UNEXPECTED, [], None))
              else case add_thread_pages g r eaccept offset [] DYN_THREAD_IDS of
                None \<Rightarrow> None
              | Some (Inl e) \<Rightarrow> Some (Inl e)
              | Some (Inr (rc, accepted)) \<Rightarrow>
                  if rc \<noteq> 0 then Some (Inr (SGX_ERROR_UNEXPECTED, accepted, None))
                  else
                    let t = \<lparr>ossa = tcs + ossa tcs_template - image_base g,
                             ofs_base = tcs + ofs_base tcs_template - image_base g,
                             ogs_base = tcs + ogs_base tcs_template - image_base g\<rparr> in
                    if mktcs_ocall t \<noteq> 0 then Some (Inr (SGX_ERROR_UNEXPECTED, accepted, Some t))
                    else map_option (map_sum id (\<lambda>ps. (SGX_SUCCESS, accepted @ ps, Some t)))
                           (sgx_accept_backward eaccept (SI_FLAG_TCS OR SI_FLAG_MODIFIED) tcs (tcs + SE_PAGE_SIZE)))"

section \<open>Post-removal follows the load sequence\<close>

definition post_remove_pages :: "global_data \<Rightarrow> layout_t \<times> u64 \<Rightarrow> addr list" where
  "post_remove_pages g x =
     (case x of (l, off) \<Rightarrow>
        if l_attributes l AND PAGE_ATTR_POST_REMOVE \<noteq> 0
        then pages (l_rva l + off + image_base g) (unat (l_page_count l)) else [])"

definition layout_wf :: "global_data \<Rightarrow> bool" where
  "layout_wf g \<longleftrightarrow> groups_wf (layout_table g) \<and>
     (\<forall>(l, off) \<in> set (load_sequence (layout_table g)).
        unat (l_rva l + off + image_base g) + unat (l_page_count l) * 4096 < 2 ^ 64)"

lemma page_bytes_eq: "page_bytes n = word_of_nat (unat n) * SE_PAGE_SIZE"
  by (simp add: page_bytes_def push_bit_eq_mult of_nat_unat)

lemma accept_entry_exact:
  assumes "unat (l_rva l + off + image_base g) + unat (l_page_count l) * 4096 < 2 ^ 64"
    and "l_attributes l AND PAGE_ATTR_POST_REMOVE \<noteq> 0"
  shows "and_then (sgx_accept_forward ea sfl (l_rva l + off + image_base g)
      (l_rva l + off + image_base g + page_bytes (l_page_count l))) acc =
    Some (if \<forall>p \<in> set (post_remove_pages g (l, off)). ea sfl p = 0
      then Inr (acc @ post_remove_pages g (l, off)) else Inl Abort)"
  using assms accept_forward_exact [OF assms(1), of ea sfl "[]"]
  by (simp add: sgx_accept_forward_def page_bytes_eq and_then_def post_remove_pages_def)

text \<open>
  C17. After initialization the runtime accepts the removal of exactly the pages the metadata marks for
  removal: for every well-formed layout table the recursive walk of \<^verbatim>\<open>accept_post_remove\<close> ends, visits
  the entries in the documented load sequence (groups repeated with their accumulated step), accepts
  every page of every marked entry once per load and nothing else, and aborts as soon as the
  processor rejects one of them.
\<close>
theorem accept_post_remove_follows_load_sequence:
  assumes "layout_wf g"
  defines "out \<equiv> concat (map (post_remove_pages g) (load_sequence (layout_table g)))"
  shows "accept_post_remove g ea 0 (length (layout_table g)) 0 [] =
    Some (if \<forall>p \<in> set out. ea (SI_FLAG_TRIM OR SI_FLAG_MODIFIED) p = 0 then Inr out else Inl Abort)"
proof -
  have "accept_post_remove g ea 0 (length (layout_table g)) 0 [] =
    Some (if \<forall>x \<in> set (load_sequence (layout_table g)). \<forall>p \<in> set (post_remove_pages g x). ea (SI_FLAG_TRIM OR SI_FLAG_MODIFIED) p = 0
      then Inr ([] @ out) else Inl Abort)"
    unfolding accept_post_remove_def out_def layout_walk_load_sequence [OF assms(1) [unfolded layout_wf_def, THEN conjunct1]]
  proof (rule foldM_collect)
    fix x acc
    assume x: "x \<in> set (load_sequence (layout_table g))"
    obtain l off where lo: "x = (l, off)" by (cases x)
    from assms(1) x lo have w: "unat (l_rva l + off + image_base g) + unat (l_page_count l) * 4096 < 2 ^ 64"
      unfolding layout_wf_def by blast
    show "(case x of (l, off) \<Rightarrow> if l_attributes l AND PAGE_ATTR_POST_REMOVE \<noteq> 0
       then let start_addr = l_rva l + off + image_base g in
            and_then (sgx_accept_forward ea (SI_FLAG_TRIM OR SI_FLAG_MODIFIED) start_addr
                        (start_addr + page_bytes (l_page_count l))) acc
       else Some (Inr acc)) =
      Some (if \<forall>p \<in> set (post_remove_pages g x). ea (SI_FLAG_TRIM OR SI_FLAG_MODIFIED) p = 0
        then Inr (acc @ post_remove_pages g x) else Inl Abort)"
      using accept_entry_exact [OF w, of ea "SI_FLAG_TRIM OR SI_FLAG_MODIFIED" acc]
      by (cases "l_attributes l AND PAGE_ATTR_POST_REMOVE \<noteq> 0") (simp_all add: lo Let_def post_remove_pages_def)
  qed
  then show ?thesis by (auto simp: out_def)
qed

definition demo_layout :: global_data where
  "demo_layout = \<lparr>image_base = 0x100000, enclave_size = 0x100000, heap_offset = 0x10000, heap_size = 0x2000,
     rsrv_offset = 0, rsrv_size = 0, EDMM_supported = True,
     layout_table =
       [\<lparr>l_id = 1, l_attributes = 0, l_page_count = 2, l_rva = 0x10000, l_si_flags = 0x203\<rparr>,
        \<lparr>l_id = 3, l_attributes = 8, l_page_count = 4, l_rva = 0x12000, l_si_flags = 0x203\<rparr>,
        \<lparr>l_id = 8, l_attributes = 0x10, l_page_count = 1, l_rva = 0x1000, l_si_flags = 0x203\<rparr>,
        \<lparr>l_id = 0x1009, l_attributes = 1, l_page_count = 2, l_rva = 0x2000, l_si_flags = 0\<rparr>]\<rparr>"

theorem accept_post_remove_follows_load_sequence_witness:
  "accept_post_remove demo_layout (\<lambda>_ _. 0) 0 4 0 [] = Some (Inr [0x101000, 0x103000, 0x105000])"
proof -
  have seq: "load_sequence (layout_table demo_layout) =
      map (\<lambda>i. (layout_table demo_layout ! i, 0)) [0, 1, 2] @
      map (\<lambda>off. (layout_table demo_layout ! 2, off)) [0x2000, 0x4000]" by code_simp
  have "groups_wf (layout_table demo_layout)" by code_simp
  then have "layout_wf demo_layout"
    unfolding layout_wf_def seq by (simp add: demo_layout_def)
  moreover have "concat (map (post_remove_pages demo_layout) (load_sequence (layout_table demo_layout))) =
      [0x101000, 0x103000, 0x105000]" by code_simp
  moreover have "length (layout_table demo_layout) = 4" by (simp add: demo_layout_def)
  ultimately show ?thesis
    using accept_post_remove_follows_load_sequence [of demo_layout "\<lambda>_ _. 0"] by simp
qed

section \<open>Only pages of dynamic regions are added\<close>

text \<open>The address ranges of the metadata whose pages may come and go at run time.\<close>

definition thread_offsets :: "global_data \<Rightarrow> u64 set" where
  "thread_offsets g =
     (case get_dynamic_layout_by_id g LAYOUT_ID_THREAD_GROUP_DYN of
        None \<Rightarrow> {0}
      | Some l \<Rightarrow> (\<lambda>k. word_of_nat k * load_step l) ` {0 ..< unat (load_times l + 1)})"

definition dynamic_regions :: "global_data \<Rightarrow> rsrv_globals \<Rightarrow> (u64 \<times> u64) set" where
  "dynamic_regions g r =
     {(get_heap_base g + get_heap_min_size g, get_heap_base g + get_heap_size g),
      (rsrv_mem_base r + rsrv_mem_min_size r, rsrv_mem_base r + rsrv_mem_size r)} \<union>
     {(image_base g + l_rva l + off, image_base g + l_rva l + off + page_bytes (l_page_count l)) | l off i.
        get_dynamic_layout_by_id g i = Some l \<and>
        (i = LAYOUT_ID_STACK_MAX \<and> off = 0 \<or> i \<in> set DYN_THREAD_IDS \<and> off \<in> thread_offsets g)}"

lemma first_some_None: "first_some f xs = None \<longleftrightarrow> (\<forall>x \<in> set xs. f x = None)"
  by (induction xs) (auto split: option.split)

lemma first_some_found: "first_some f xs \<noteq> None \<longleftrightarrow> (\<exists>x \<in> set xs. f x \<noteq> None)"
  by (simp add: first_some_None)

lemma check_entry_iff:
  "i \<in> insert LAYOUT_ID_STACK_MAX (set DYN_THREAD_IDS) \<Longrightarrow>
   check_dynamic_entry_range g addr n i off \<noteq> None \<longleftrightarrow>
   (\<exists>l. get_dynamic_layout_by_id g i = Some l \<and> image_base g + l_rva l + off \<le> addr \<and>
      addr + push_bit SE_PAGE_SHIFT n \<le> image_base g + l_rva l + off + page_bytes (l_page_count l))"
  by (auto simp: check_dynamic_entry_range_def DYN_THREAD_IDS_def Let_def split: option.split)

lemma check_dynamic_range_iff:
  "check_dynamic_range g r addr n \<noteq> None \<longleftrightarrow>
   unat addr + unat (push_bit SE_PAGE_SHIFT n) < 2 ^ 64 \<and>
   (\<exists>(lo, hi) \<in> dynamic_regions g r. lo \<le> addr \<and> addr + push_bit SE_PAGE_SHIFT n \<le> hi)"
proof -
  define len where "len = push_bit SE_PAGE_SHIFT n"
  have ov: "\<not> addr > SIZE_MAX - len \<longleftrightarrow> unat addr + unat len < 2 ^ 64"
  proof -
    have m: "len \<le> SIZE_MAX" by simp
    have "unat (SIZE_MAX - len) = 2 ^ 64 - 1 - unat len"
      using unat_sub [OF m] by (simp add: unsigned_minus_1_eq_mask mask_eq_exp_minus_1)
    then show ?thesis using unat_u64 [of len] by (simp add: not_less word_le_nat_alt) linarith
  qed
  have threads: "(case get_dynamic_layout_by_id g LAYOUT_ID_THREAD_GROUP_DYN of
        Some dt_layout \<Rightarrow>
          first_some (\<lambda>i. first_some (\<lambda>k.
              let entry_offset = word_of_nat k * load_step dt_layout in
              map_option (Pair (Some entry_offset)) (check_dynamic_entry_range g addr n i entry_offset))
              [0 ..< unat (load_times dt_layout + 1)]) DYN_THREAD_IDS
      | None \<Rightarrow>
          first_some (\<lambda>i. map_option (Pair (Some 0)) (check_dynamic_entry_range g addr n i 0)) DYN_THREAD_IDS) \<noteq> None
    \<longleftrightarrow> (\<exists>i \<in> set DYN_THREAD_IDS. \<exists>off \<in> thread_offsets g. check_dynamic_entry_range g addr n i off \<noteq> None)"
    by (cases "get_dynamic_layout_by_id g LAYOUT_ID_THREAD_GROUP_DYN")
      (simp_all only: first_some_found thread_offsets_def Let_def option.case map_option_is_None set_upt
        bex_simps simp_thms)
  have "check_dynamic_range g r addr n \<noteq> None \<longleftrightarrow>
    \<not> addr > SIZE_MAX - len \<and>
    (check_heap_dyn_range g addr n \<noteq> None \<or> check_rsrv_dyn_range r addr n \<noteq> None \<or>
     check_dynamic_entry_range g addr n LAYOUT_ID_STACK_MAX 0 \<noteq> None \<or>
     (\<exists>i \<in> set DYN_THREAD_IDS. \<exists>off \<in> thread_offsets g. check_dynamic_entry_range g addr n i off \<noteq> None))"
    unfolding check_dynamic_range_def check_utility_thread_dynamic_stack_def len_def [symmetric] threads [symmetric]
    by (cases "check_heap_dyn_range g addr n"; cases "check_rsrv_dyn_range r addr n";
        cases "check_dynamic_entry_range g addr n LAYOUT_ID_STACK_MAX 0") simp_all
  also have "\<dots> \<longleftrightarrow> unat addr + unat len < 2 ^ 64 \<and>
    (\<exists>(lo, hi) \<in> dynamic_regions g r. lo \<le> addr \<and> addr + len \<le> hi)"
  proof -
    have heap: "check_heap_dyn_range g addr n \<noteq> None \<longleftrightarrow>
        get_heap_base g + get_heap_min_size g \<le> addr \<and> addr + len \<le> get_heap_base g + get_heap_size g"
      by (simp add: check_heap_dyn_range_def Let_def len_def)
    have rsrv: "check_rsrv_dyn_range r addr n \<noteq> None \<longleftrightarrow>
        rsrv_mem_base r + rsrv_mem_min_size r \<le> addr \<and> addr + len \<le> rsrv_mem_base r + rsrv_mem_size r"
      by (simp add: check_rsrv_dyn_range_def Let_def len_def)
    have stk: "check_dynamic_entry_range g addr n LAYOUT_ID_STACK_MAX 0 \<noteq> None \<longleftrightarrow>
        (\<exists>l. get_dynamic_layout_by_id g LAYOUT_ID_STACK_MAX = Some l \<and> image_base g + l_rva l + 0 \<le> addr \<and>
          addr + len \<le> image_base g + l_rva l + 0 + page_bytes (l_page_count l))"
      unfolding len_def by (rule check_entry_iff) simp
    have dyn: "(\<exists>i \<in> set DYN_THREAD_IDS. \<exists>off \<in> thread_offsets g. check_dynamic_entry_range g addr n i off \<noteq> None) \<longleftrightarrow>
        (\<exists>i \<in> set DYN_THREAD_IDS. \<exists>off \<in> thread_offsets g. \<exists>l. get_dynamic_layout_by_id g i = Some l \<and>
          image_base g + l_rva l + off \<le> addr \<and>
          addr + len \<le> image_base g + l_rva l + off + page_bytes (l_page_count l))"
      unfolding len_def by (intro bex_cong refl check_entry_iff) simp
    show ?thesis unfolding heap rsrv stk dyn ov dynamic_regions_def by blast
  qed
  finally show ?thesis by (simp only: len_def)
qed

lemma unat_page_shift: "unat (push_bit SE_PAGE_SHIFT (n :: u64)) = (unat n mod 2 ^ 52) * 4096"
proof -
  have "unat (push_bit SE_PAGE_SHIFT n) = (unat n * 4096) mod 2 ^ 64"
    by (simp add: push_bit_eq_mult unat_word_ariths)
  also have "\<dots> = (unat n * 4096) mod (2 ^ 52 * 4096)" by simp
  also have "\<dots> = (unat n mod 2 ^ 52) * 4096" by (rule mult_mod_left [symmetric])
  finally show ?thesis .
qed

lemma page_shift_eq: "push_bit SE_PAGE_SHIFT (n :: u64) = word_of_nat (unat n mod 2 ^ 52) * SE_PAGE_SIZE"
proof (rule word_unat_eq_iff [THEN iffD2])
  have "(unat n mod 2 ^ 52) * 4096 < 2 ^ 64"
    using mod_less_divisor [of "2 ^ 52" "unat n"] by simp
  then have "unat (0 + word_of_nat (unat n mod 2 ^ 52) * SE_PAGE_SIZE :: u64) = unat (0 :: u64) + (unat n mod 2 ^ 52) * 4096"
    by (intro unat_page_end) simp
  then show "unat (push_bit SE_PAGE_SHIFT n) = unat (word_of_nat (unat n mod 2 ^ 52) * SE_PAGE_SIZE :: u64)"
    by (simp add: unat_page_shift)
qed

text \<open>\<open>covered g r start n\<close>: the \<open>n\<close> pages from \<open>start\<close> lie in one dynamic region.\<close>

definition covered :: "global_data \<Rightarrow> rsrv_globals \<Rightarrow> u64 \<Rightarrow> nat \<Rightarrow> bool" where
  "covered g r start n \<longleftrightarrow> unat start + n * 4096 < 2 ^ 64 \<and>
     (\<exists>(lo, hi) \<in> dynamic_regions g r. lo \<le> start \<and> start + word_of_nat n * SE_PAGE_SIZE \<le> hi)"

lemma check_covered: "check_dynamic_range g r start n \<noteq> None \<longleftrightarrow> covered g r start (unat n mod 2 ^ 52)"
  unfolding check_dynamic_range_iff covered_def unat_page_shift unfolding page_shift_eq ..

lemma check_not_covered: "\<not> covered g r start (unat n mod 2 ^ 52) \<Longrightarrow> check_dynamic_range g r start n = None"
  using check_covered [of g r start n] by blast

lemma covered_pages:
  assumes "covered g r start n" "p \<in> set (pages start n)"
  shows "\<exists>(lo, hi) \<in> dynamic_regions g r. unat lo \<le> unat p \<and> unat p + 4096 \<le> unat hi"
proof -
  from assms(1) obtain lo hi where r: "(lo, hi) \<in> dynamic_regions g r" "unat lo \<le> unat start"
      "unat (start + word_of_nat n * SE_PAGE_SIZE) \<le> unat hi" and ov: "unat start + n * 4096 < 2 ^ 64"
    by (auto simp: covered_def word_le_nat_alt)
  from assms(2) obtain i where i: "i < n" "p = start + word_of_nat i * SE_PAGE_SIZE"
    by (auto simp: pages_def)
  have "unat p = unat start + i * 4096"
    unfolding i(2) using ov i(1) by (intro unat_page_end) simp
  moreover have "unat (start + word_of_nat n * SE_PAGE_SIZE) = unat start + n * 4096"
    using ov by (rule unat_page_end)
  ultimately show ?thesis using r i(1) by (intro bexI [of _ "(lo, hi)"]) auto
qed

lemma apply_EPC_pages_cases:
  "\<not> covered g r start (unat n mod 2 ^ 52) \<or> start = NULL \<Longrightarrow> apply_EPC_pages g r ea start n = Some (Inr (-1, []))"
  "covered g r start (unat n mod 2 ^ 52) \<Longrightarrow> start \<noteq> NULL \<Longrightarrow>
   \<exists>ps. (ps = pages start (unat n mod 2 ^ 52) \<or> ps = rev (pages start (unat n mod 2 ^ 52))) \<and>
     apply_EPC_pages g r ea start n =
       Some (if \<forall>p \<in> set ps. ea (SI_FLAGS_RW OR SI_FLAG_PENDING) p = 0 then Inr (0, ps) else Inl Abort)"
proof -
  show "apply_EPC_pages g r ea start n = Some (Inr (-1, []))"
    if "\<not> covered g r start (unat n mod 2 ^ 52) \<or> start = NULL"
    using that check_not_covered [of g r start n] by (auto simp: apply_EPC_pages_def)
  assume c: "covered g r start (unat n mod 2 ^ 52)" and s: "start \<noteq> NULL"
  from c have ov: "unat start + (unat n mod 2 ^ 52) * 4096 < 2 ^ 64" by (simp add: covered_def)
  obtain off fa where k: "check_dynamic_range g r start n = Some (off, fa)"
    using c check_covered [of g r start n] by auto
  show "\<exists>ps. (ps = pages start (unat n mod 2 ^ 52) \<or> ps = rev (pages start (unat n mod 2 ^ 52))) \<and>
     apply_EPC_pages g r ea start n =
       Some (if \<forall>p \<in> set ps. ea (SI_FLAGS_RW OR SI_FLAG_PENDING) p = 0 then Inr (0, ps) else Inl Abort)"
  proof (cases "fa_attributes fa AND PAGE_DIR_GROW_DOWN \<noteq> 0")
    case True
    then show ?thesis
      using s k accept_forward_exact [OF ov, of ea "SI_FLAGS_RW OR SI_FLAG_PENDING" "[]"]
      by (intro exI [of _ "pages start (unat n mod 2 ^ 52)"])
        (simp add: apply_EPC_pages_def Let_def sgx_accept_forward_def page_shift_eq with_rc_def)
  next
    case False
    then show ?thesis
      using s k accept_backward_exact [OF ov, of ea "SI_FLAGS_RW OR SI_FLAG_PENDING" "[]"]
      by (intro exI [of _ "rev (pages start (unat n mod 2 ^ 52))"])
        (simp add: apply_EPC_pages_def Let_def sgx_accept_backward_def page_shift_eq with_rc_def)
  qed
qed

text \<open>
  C16. Adding pages is confined to the dynamic regions of the metadata: \<^verbatim>\<open>apply_EPC_pages\<close> and its variant
  for exception handling always return; they reject exactly the requests that are null or do not lie,
  without wrapping around, in one dynamic region, and for the others accept every page of the request
  exactly once and report success, or abort when the processor rejects a page. (A page count is taken
  modulo \<open>2 ^ 52\<close>, since its size in bytes is computed in 64 bits.)
\<close>
theorem apply_pages_confined:
  fixes n :: u64
  defines "k \<equiv> unat n mod 2 ^ 52"
  shows "(start = NULL \<or> \<not> covered g r start k \<longrightarrow>
        apply_EPC_pages g r ea start n = Some (Inr (-1, [])) \<and>
        apply_pages_within_exception g r ea start n = Some (Inr (-1, [])))
    \<and> (start \<noteq> NULL \<and> covered g r start k \<longrightarrow>
        (\<exists>ps. (ps = pages start k \<or> ps = rev (pages start k)) \<and>
           apply_EPC_pages g r ea start n =
             Some (if \<forall>p \<in> set ps. ea (SI_FLAGS_RW OR SI_FLAG_PENDING) p = 0 then Inr (0, ps) else Inl Abort)) \<and>
        apply_pages_within_exception g r ea start n =
          Some (if \<forall>p \<in> set (pages start k). ea (SI_FLAGS_RW OR SI_FLAG_PENDING) p = 0
            then Inr (0, pages start k) else Inl Abort) \<and>
        (\<forall>p \<in> set (pages start k). \<exists>(lo, hi) \<in> dynamic_regions g r. unat lo \<le> unat p \<and> unat p + 4096 \<le> unat hi))"
proof (intro conjI impI)
  assume n: "start = NULL \<or> \<not> covered g r start k"
  then show "apply_EPC_pages g r ea start n = Some (Inr (-1, []))"
    unfolding k_def by (intro apply_EPC_pages_cases(1)) blast
  from n show "apply_pages_within_exception g r ea start n = Some (Inr (-1, []))"
    using check_not_covered [of g r start n] by (auto simp: apply_pages_within_exception_def k_def)
next
  assume "start \<noteq> NULL \<and> covered g r start k"
  then have s: "start \<noteq> NULL" and c: "covered g r start k" by simp_all
  show "\<exists>ps. (ps = pages start k \<or> ps = rev (pages start k)) \<and> apply_EPC_pages g r ea start n =
      Some (if \<forall>p \<in> set ps. ea (SI_FLAGS_RW OR SI_FLAG_PENDING) p = 0 then Inr (0, ps) else Inl Abort)"
    using c s unfolding k_def by (rule apply_EPC_pages_cases(2))
  from c have ov: "unat start + k * 4096 < 2 ^ 64" by (simp add: covered_def)
  show "apply_pages_within_exception g r ea start n =
      Some (if \<forall>p \<in> set (pages start k). ea (SI_FLAGS_RW OR SI_FLAG_PENDING) p = 0
        then Inr (0, pages start k) else Inl Abort)"
    using s c check_covered [of g r start n] accept_forward_exact [OF ov, of ea "SI_FLAGS_RW OR SI_FLAG_PENDING" "[]"]
    by (auto simp: apply_pages_within_exception_def sgx_accept_forward_within_exception_def page_shift_eq
        with_rc_def k_def)
  show "\<forall>p \<in> set (pages start k). \<exists>(lo, hi) \<in> dynamic_regions g r. unat lo \<le> unat p \<and> unat p + 4096 \<le> unat hi"
    using covered_pages [OF c] by blast
qed

definition demo_rsrv :: rsrv_globals where
  "demo_rsrv = \<lparr>rsrv_mem_base = 0, rsrv_mem_size = 0, rsrv_mem_min_size = 0\<rparr>"

lemma demo_covered: "covered demo_layout demo_rsrv 0x113000 2"
proof -
  have "(0x112000, 0x116000) \<in> dynamic_regions demo_layout demo_rsrv"
    by (simp add: dynamic_regions_def demo_layout_def get_heap_base_def get_heap_min_size_def get_heap_size_def
        page_bytes_def)
  then show ?thesis unfolding covered_def by (intro conjI bexI [of _ "(0x112000, 0x116000)"]) simp_all
qed

theorem apply_pages_confined_witness:
  "apply_pages_within_exception demo_layout demo_rsrv (\<lambda>_ _. 0) 0x113000 2 = Some (Inr (0, [0x113000, 0x114000]))"
proof -
  have "unat (2 :: u64) mod 2 ^ 52 = 2" by simp
  moreover have "pages 0x113000 2 = [0x113000, 0x114000]" by (simp add: numeral_2_eq_2 pages_Suc)
  ultimately show ?thesis
    using apply_pages_confined [of "0x113000" demo_layout demo_rsrv 2 "\<lambda>_ _. 0"] demo_covered by simp
qed

section \<open>Trimming and adding threads\<close>

lemma trim_commit_exact:
  assumes "unat lo + n * 4096 < 2 ^ 64"
  shows "trim_commit_loop ndebug commit lo (lo + word_of_nat n * SE_PAGE_SIZE) rc evs =
    Some (if \<forall>p \<in> set (pages lo n). assert_rc ndebug (commit p)
          then Inr (if n = 0 then rc else commit (List.last (pages lo n)), evs @ map Trim_commit (pages lo n)) else Inl Abort)"
  using assms
proof (induction n arbitrary: lo rc evs)
  case 0
  show ?case by (subst trim_commit_loop.simps) simp
next
  case (Suc n)
  have s: "unat (lo + SE_PAGE_SIZE) = unat lo + 4096"
    using unat_page_end [of lo 1] Suc.prems by simp
  have e: "lo + word_of_nat (Suc n) * SE_PAGE_SIZE = lo + SE_PAGE_SIZE + word_of_nat n * SE_PAGE_SIZE"
    by (simp add: algebra_simps)
  have "lo < lo + word_of_nat (Suc n) * SE_PAGE_SIZE"
    using unat_page_end [OF Suc.prems] by (simp add: word_less_nat_alt del: of_nat_Suc)
  then have "trim_commit_loop ndebug commit lo (lo + word_of_nat (Suc n) * SE_PAGE_SIZE) rc evs =
    (if \<not> assert_rc ndebug (commit lo) then Some (Inl Abort)
     else trim_commit_loop ndebug commit (lo + SE_PAGE_SIZE) (lo + SE_PAGE_SIZE + word_of_nat n * SE_PAGE_SIZE)
            (commit lo) (evs @ [Trim_commit lo]))"
    unfolding e by (subst trim_commit_loop.simps) (simp add: Let_def)
  moreover have "n \<noteq> 0 \<longleftrightarrow> pages (lo + SE_PAGE_SIZE) n \<noteq> []" by (simp add: pages_def)
  ultimately show ?case using Suc.IH [of "lo + SE_PAGE_SIZE" "commit lo" "evs @ [Trim_commit lo]"] s Suc.prems
    by (auto simp: pages_Suc)
qed

text \<open>
  C18. Trimming pages, in the build with assertions and in the one without: a request that is null or not
  inside a dynamic region is rejected with nothing done. Otherwise the untrusted side is asked to trim the
  range, then the processor confirms the removal of every page, and only after the last of them each page
  is committed, each page once and in address order in both passes; when the processor refuses a page the
  enclave aborts. With assertions, a failing OCALL aborts too and the result is 0; without them
  (\<^verbatim>\<open>NDEBUG\<close>) failures of the OCALLs do not stop the call, and the result is that of the last commit alone.
\<close>
theorem trim_pages_accepts_then_commits:
  fixes n :: u64
  defines "k \<equiv> unat n mod 2 ^ 52"
  shows "trim_EPC_pages g r ndebug ea trim commit start n =
    (let stop = start + word_of_nat k * SE_PAGE_SIZE; ps = pages start k in
     if start = NULL \<or> \<not> covered g r start k then Some (Inr (-1, []))
     else if (\<forall>p \<in> set ps. ea (SI_FLAG_TRIM OR SI_FLAG_MODIFIED) p = 0) \<and>
       (ndebug \<or> trim start stop = 0 \<and> (\<forall>p \<in> set ps. commit p = 0))
     then Some (Inr (if ndebug \<and> ps \<noteq> [] then commit (List.last ps) else 0,
                     Trim_range start stop # map Trim_accept ps @ map Trim_commit ps))
     else Some (Inl Abort))"
proof (cases "start = NULL \<or> \<not> covered g r start k")
  case True
  then show ?thesis using check_not_covered [of g r start n] by (auto simp: trim_EPC_pages_def k_def)
next
  case False
  then have s: "start \<noteq> NULL" and c: "covered g r start k" by simp_all
  from c have ov: "unat start + k * 4096 < 2 ^ 64" by (simp add: covered_def)
  obtain fa where ch: "check_dynamic_range g r start n = Some fa"
    using c check_covered [of g r start n] by (auto simp: k_def)
  have "push_bit SE_PAGE_SHIFT n = word_of_nat k * SE_PAGE_SIZE" by (simp only: page_shift_eq k_def)
  moreover have "k = 0 \<longleftrightarrow> pages start k = []" by (simp add: pages_def)
  moreover have "commit (List.last (pages start k)) = 0" if "pages start k \<noteq> []" "\<forall>p \<in> set (pages start k). commit p = 0"
    using that by simp
  ultimately show ?thesis
    using s c ch accept_forward_exact [OF ov, of ea "SI_FLAG_TRIM OR SI_FLAG_MODIFIED" "[]"]
      trim_commit_exact [OF ov, of ndebug commit 0]
    by (cases ndebug) (auto simp: trim_EPC_pages_def Let_def assert_rc_def sgx_accept_forward_def)
qed

theorem trim_pages_accepts_then_commits_witness:
  "trim_EPC_pages demo_layout demo_rsrv False (\<lambda>_ _. 0) (\<lambda>_ _. 0) (\<lambda>_. 0) 0x113000 2 =
   Some (Inr (0, [Trim_range 0x113000 0x115000, Trim_accept 0x113000, Trim_accept 0x114000,
                  Trim_commit 0x113000, Trim_commit 0x114000]))"
proof -
  have "unat (2 :: u64) mod 2 ^ 52 = 2" by simp
  moreover have "pages 0x113000 2 = [0x113000, 0x114000]" by (simp add: numeral_2_eq_2 pages_Suc)
  ultimately show ?thesis
    using trim_pages_accepts_then_commits [of demo_layout demo_rsrv False "\<lambda>_ _. 0" "\<lambda>_ _. 0" "\<lambda>_. 0" "0x113000" 2]
      demo_covered by (simp add: Let_def)
qed

lemma apply_EPC_pages_total:
  "apply_EPC_pages g r ea start n = Some (Inl Abort) \<or>
   (\<exists>rc ps. apply_EPC_pages g r ea start n = Some (Inr (rc, ps)) \<and>
      (\<forall>p \<in> set ps. \<exists>(lo, hi) \<in> dynamic_regions g r. unat lo \<le> unat p \<and> unat p + 4096 \<le> unat hi))"
proof (cases "start = NULL \<or> \<not> covered g r start (unat n mod 2 ^ 52)")
  case True
  then show ?thesis using apply_EPC_pages_cases(1) by fastforce
next
  case False
  then have c: "covered g r start (unat n mod 2 ^ 52)" and s: "start \<noteq> NULL" by simp_all
  obtain ps where ps: "ps = pages start (unat n mod 2 ^ 52) \<or> ps = rev (pages start (unat n mod 2 ^ 52))"
      "apply_EPC_pages g r ea start n =
       Some (if \<forall>p \<in> set ps. ea (SI_FLAGS_RW OR SI_FLAG_PENDING) p = 0 then Inr (0, ps) else Inl Abort)"
    using apply_EPC_pages_cases(2) [OF c s] by blast
  have "\<forall>p \<in> set ps. \<exists>(lo, hi) \<in> dynamic_regions g r. unat lo \<le> unat p \<and> unat p + 4096 \<le> unat hi"
    using covered_pages [OF c] ps(1) by auto
  with ps(2) show ?thesis by auto
qed

lemma add_thread_pages_total:
  assumes "\<forall>p \<in> set acc. \<exists>(lo, hi) \<in> dynamic_regions g r. unat lo \<le> unat p \<and> unat p + 4096 \<le> unat hi"
  shows "foldM (\<lambda>(rc, acc) i.
       if rc \<noteq> 0 then Some (Inr (rc, acc))
       else case get_dynamic_layout_by_id g i of
         None \<Rightarrow> Some (Inr (rc, acc))
       | Some l \<Rightarrow>
           if l_attributes l AND PAGE_ATTR_DYN_THREAD \<noteq> 0
           then map_option (map_sum id (\<lambda>(rc, ps). (rc, acc @ ps)))
                  (apply_EPC_pages g r ea (image_base g + l_rva l + off) (ucast (l_page_count l)))
           else Some (Inr (rc, acc))) ids (rc, acc) = Some (Inl Abort) \<or>
    (\<exists>rc' ps. foldM (\<lambda>(rc, acc) i.
       if rc \<noteq> 0 then Some (Inr (rc, acc))
       else case get_dynamic_layout_by_id g i of
         None \<Rightarrow> Some (Inr (rc, acc))
       | Some l \<Rightarrow>
           if l_attributes l AND PAGE_ATTR_DYN_THREAD \<noteq> 0
           then map_option (map_sum id (\<lambda>(rc, ps). (rc, acc @ ps)))
                  (apply_EPC_pages g r ea (image_base g + l_rva l + off) (ucast (l_page_count l)))
           else Some (Inr (rc, acc))) ids (rc, acc) = Some (Inr (rc', ps)) \<and>
      (\<forall>p \<in> set ps. \<exists>(lo, hi) \<in> dynamic_regions g r. unat lo \<le> unat p \<and> unat p + 4096 \<le> unat hi))"
    (is "foldM ?f _ _ = _ \<or> _")
  using assms
proof (induction ids arbitrary: rc acc)
  case Nil
  then show ?case by simp
next
  case (Cons i ids)
  have "?f (rc, acc) i = Some (Inl Abort) \<or> (\<exists>rc' ps. ?f (rc, acc) i = Some (Inr (rc', ps)) \<and>
      (\<forall>p \<in> set ps. \<exists>(lo, hi) \<in> dynamic_regions g r. unat lo \<le> unat p \<and> unat p + 4096 \<le> unat hi))"
  proof (cases "get_dynamic_layout_by_id g i")
    case None
    with Cons.prems show ?thesis by simp
  next
    case (Some l)
    then show ?thesis
      using Cons.prems apply_EPC_pages_total [of g r ea "image_base g + l_rva l + off" "ucast (l_page_count l)"]
      by (auto simp: ball_Un)
  qed
  then show ?case
  proof (elim disjE exE conjE)
    fix rc' ps
    assume f: "?f (rc, acc) i = Some (Inr (rc', ps))"
      and ps: "\<forall>p \<in> set ps. \<exists>(lo, hi) \<in> dynamic_regions g r. unat lo \<le> unat p \<and> unat p + 4096 \<le> unat hi"
    show ?thesis unfolding foldM.simps f using Cons.IH [OF ps, of rc'] by simp
  qed (simp only: foldM.simps option.case sum.case simp_thms)
qed

lemma first_some_SomeD: "first_some f xs = Some y \<Longrightarrow> \<exists>x \<in> set xs. f x = Some y"
  by (induction xs) (auto split: option.splits)

lemma check_dynamic_range_offset:
  assumes "check_dynamic_range g r addr n = Some x" "x = (o1, fa)"
  shows "(case o1 of None \<Rightarrow> 0 | Some off \<Rightarrow> off) \<in> insert 0 (thread_offsets g)"
proof -
  have "o1 = None \<or> o1 = Some 0 \<or> (\<exists>off \<in> thread_offsets g. o1 = Some off)"
    using assms unfolding check_dynamic_range_def thread_offsets_def
    by (auto simp: Let_def split: if_splits option.splits dest!: first_some_SomeD)
  then show ?thesis by auto
qed

text \<open>
  C19. Creating a thread at run time: \<^verbatim>\<open>do_add_thread\<close> always returns; it succeeds only for an address that
  is exactly a TCS slot of the metadata (the dynamic TCS entry, shifted by one of the group's steps),
  all pages it accepts lie in dynamic regions, the TCS page itself is accepted as a TCS last, and the
  TCS handed over has its SSA, FS and GS offsets made relative to the enclave base.
\<close>
theorem do_add_thread_only_declared_slots:
  "(\<exists>res. do_add_thread g r ea tmpl mktcs tcs = Some res)
    \<and> (\<forall>ps t. do_add_thread g r ea tmpl mktcs tcs = Some (Inr (SGX_SUCCESS, ps, t)) \<longrightarrow>
        (\<exists>l off. get_dynamic_layout_by_id g LAYOUT_ID_TCS_DYN = Some l \<and> off \<in> insert 0 (thread_offsets g) \<and>
           tcs = image_base g + l_rva l + off) \<and>
        ps \<noteq> [] \<and> List.last ps = tcs \<and> ea (SI_FLAG_TCS OR SI_FLAG_MODIFIED) tcs = 0 \<and>
        (\<forall>p \<in> set ps. \<exists>(lo, hi) \<in> dynamic_regions g r. unat lo \<le> unat p \<and> unat p + 4096 \<le> unat hi) \<and>
        (\<exists>t'. t = Some t' \<and> mktcs t' = 0 \<and> image_base g + ossa t' = tcs + ossa tmpl \<and>
           image_base g + ofs_base t' = tcs + ofs_base tmpl \<and> image_base g + ogs_base t' = tcs + ogs_base tmpl))"
proof (cases "check_dynamic_range g r tcs 1")
  case None
  then show ?thesis by (simp add: do_add_thread_def)
next
  case (Some x)
  obtain o1 fa where x: "x = (o1, fa)" by fastforce
  define off where "off = (case o1 of None \<Rightarrow> 0 | Some off \<Rightarrow> off)"
  have off: "off \<in> insert 0 (thread_offsets g)"
    using Some x unfolding off_def by (rule check_dynamic_range_offset)
  have one: "unat (1 :: u64) mod 2 ^ 52 = 1" by simp
  have c: "covered g r tcs 1" using check_covered [of g r tcs 1] Some by (simp only: one) simp
  from c have ov: "unat tcs + 1 * 4096 < 2 ^ 64" by (simp only: covered_def)
  have bw: "sgx_accept_backward ea sfl tcs (tcs + SE_PAGE_SIZE) = Some (if ea sfl tcs = 0 then Inr [tcs] else Inl Abort)" for sfl
    using accept_backward_exact [OF ov, of ea sfl "[]"] by (simp add: sgx_accept_backward_def pages_def)
  have tcs_in: "\<exists>(lo, hi) \<in> dynamic_regions g r. unat lo \<le> unat tcs \<and> unat tcs + 4096 \<le> unat hi"
    using covered_pages [OF c, of tcs] by (simp add: pages_def)
  show ?thesis
  proof (cases "get_dynamic_layout_by_id g LAYOUT_ID_TCS_DYN")
    case None
    then show ?thesis using Some x by (simp add: do_add_thread_def Let_def)
  next
    case l: (Some l)
    show ?thesis
    proof (cases "image_base g + l_rva l + off = tcs")
      case False
      then show ?thesis using Some x l by (simp add: do_add_thread_def Let_def off_def)
    next
      case slot: True
      have ad: "add_thread_pages g r ea off [] DYN_THREAD_IDS = Some (Inl Abort) \<or>
        (\<exists>rc ps. add_thread_pages g r ea off [] DYN_THREAD_IDS = Some (Inr (rc, ps)) \<and>
          (\<forall>p \<in> set ps. \<exists>(lo, hi) \<in> dynamic_regions g r. unat lo \<le> unat p \<and> unat p + 4096 \<le> unat hi))"
        unfolding add_thread_pages_def by (rule add_thread_pages_total) simp
      define t where "t = \<lparr>ossa = tcs + ossa tmpl - image_base g, ofs_base = tcs + ofs_base tmpl - image_base g,
        ogs_base = tcs + ogs_base tmpl - image_base g\<rparr>"
      have D: "do_add_thread g r ea tmpl mktcs tcs =
        (case add_thread_pages g r ea off [] DYN_THREAD_IDS of
           None \<Rightarrow> None
         | Some (Inl e) \<Rightarrow> Some (Inl e)
         | Some (Inr (rc, ps)) \<Rightarrow>
             if rc \<noteq> 0 then Some (Inr (SGX_ERROR_UNEXPECTED, ps, None))
             else if mktcs t \<noteq> 0 then Some (Inr (SGX_ERROR_UNEXPECTED, ps, Some t))
             else if ea (SI_FLAG_TCS OR SI_FLAG_MODIFIED) tcs = 0 then Some (Inr (SGX_SUCCESS, ps @ [tcs], Some t))
             else Some (Inl Abort))"
        using Some x l slot bw [of "SI_FLAG_TCS OR SI_FLAG_MODIFIED"]
        by (simp add: do_add_thread_def Let_def off_def t_def split: option.split sum.split)
      have tf: "image_base g + ossa t = tcs + ossa tmpl" "image_base g + ofs_base t = tcs + ofs_base tmpl"
          "image_base g + ogs_base t = tcs + ogs_base tmpl" by (simp_all add: t_def)
      show ?thesis
      proof (cases "\<exists>ps. add_thread_pages g r ea off [] DYN_THREAD_IDS = Some (Inr (0, ps)) \<and> mktcs t = 0 \<and>
          ea (SI_FLAG_TCS OR SI_FLAG_MODIFIED) tcs = 0")
        case True
        then obtain ps where ps: "add_thread_pages g r ea off [] DYN_THREAD_IDS = Some (Inr (0, ps))" "mktcs t = 0"
          "ea (SI_FLAG_TCS OR SI_FLAG_MODIFIED) tcs = 0" by blast
        with ad have "\<forall>p \<in> set ps. \<exists>(lo, hi) \<in> dynamic_regions g r. unat lo \<le> unat p \<and> unat p + 4096 \<le> unat hi"
          by auto
        moreover have "do_add_thread g r ea tmpl mktcs tcs = Some (Inr (SGX_SUCCESS, ps @ [tcs], Some t))"
          using D ps by simp
        ultimately show ?thesis using l off slot ps(2,3) tcs_in tf by auto
      next
        case False
        have "\<exists>res. do_add_thread g r ea tmpl mktcs tcs = Some res"
          using ad unfolding D by (auto split: if_splits)
        moreover have "do_add_thread g r ea tmpl mktcs tcs \<noteq> Some (Inr (SGX_SUCCESS, ps, t'))" for ps t'
          using False unfolding D by (simp split: option.split sum.split prod.split) blast
        ultimately show ?thesis by blast
      qed
    qed
  qed
qed

text \<open>A table with one dynamic thread: its TCS page and its stack.\<close>

definition demo_dyn :: global_data where
  "demo_dyn = demo_layout\<lparr>layout_table :=
     [\<lparr>l_id = 14, l_attributes = 0x20, l_page_count = 1, l_rva = 0x20000, l_si_flags = 0x100\<rparr>,
      \<lparr>l_id = 18, l_attributes = 0x60, l_page_count = 2, l_rva = 0x22000, l_si_flags = 0x203\<rparr>]\<rparr>"

theorem do_add_thread_only_declared_slots_witness:
  "\<exists>t. do_add_thread demo_dyn demo_rsrv (\<lambda>_ _. 0) \<lparr>ossa = 0x1000, ofs_base = 0x2000, ogs_base = 0x2000\<rparr> (\<lambda>_. 0) 0x120000 =
     Some (Inr (SGX_SUCCESS, [0x120000, 0x122000, 0x123000, 0x120000], Some t)) \<and> 0x100000 + ossa t = 0x120000 + 0x1000"
proof -
  let ?d = "do_add_thread demo_dyn demo_rsrv (\<lambda>_ _. 0) \<lparr>ossa = 0x1000, ofs_base = 0x2000, ogs_base = 0x2000\<rparr> (\<lambda>_. 0) 0x120000"
  have e: "?d = Some (Inr (SGX_SUCCESS, [0x120000, 0x122000, 0x123000, 0x120000],
      Some \<lparr>ossa = 0x21000, ofs_base = 0x22000, ogs_base = 0x22000\<rparr>))"
    by (simp add: do_add_thread_def demo_dyn_def demo_layout_def demo_rsrv_def check_dynamic_range_def
        check_heap_dyn_range_def get_heap_base_def get_heap_min_size_def get_heap_size_def Let_def
        check_utility_thread_dynamic_stack_def check_dynamic_entry_range_def get_dynamic_layout_by_id_def
        check_rsrv_dyn_range_def DYN_THREAD_IDS_def page_bytes_def add_thread_pages_def apply_EPC_pages_def
        sgx_accept_forward_def sgx_accept_backward_def accept_forward.simps accept_backward.simps with_rc_def)
  have "image_base demo_dyn = 0x100000" by (simp add: demo_dyn_def demo_layout_def)
  with do_add_thread_only_declared_slots [of demo_dyn demo_rsrv "\<lambda>_ _. 0"
      "\<lparr>ossa = 0x1000, ofs_base = 0x2000, ogs_base = 0x2000\<rparr>" "\<lambda>_. 0" "0x120000"] e
  show ?thesis by simp
qed

end
