(* ===== verification/Trts_Thread.thy ===== *)
theory Trts_Thread
  imports Trts_Elf Trts_Edmm
begin

text \<open>
  The state of the trusted runtime and of its threads: thread data, the enclave's global variables, the
  stack checks and small helpers of \<^verbatim>\<open>sdk/trts/trts_util.cpp\<close> and \<^verbatim>\<open>sdk/trts/trts.cpp\<close>, and the
  initialization of a thread (\<^verbatim>\<open>do_init_thread\<close> in \<^verbatim>\<open>sdk/trts/trts_ecall.cpp\<close>, \<^verbatim>\<open>init_stack_guard\<close> in
  \<^verbatim>\<open>sdk/trts/trts_nsp.cpp\<close>).
\<close>

section \<open>State\<close>

record thread_data =
  self_addr :: u64
  last_sp :: u64
  stack_base_addr :: u64
  stack_limit_addr :: u64
  first_ssa_gpr :: u64
  stack_guard :: u64
  td_flags :: u64
  xsave_size :: u64
  last_error :: u64
  td_next :: u64
  tls_addr :: u64
  tls_array :: u64
  exception_flag :: u64
  cxx_thread_info :: "u64 list"
  stack_commit_addr :: u64

text \<open>What the image fixes: the rest of \<^verbatim>\<open>g_global_data\<close>, the ECALL and OCALL tables, linked-in hooks.\<close>

record enclave_image =
  thread_policy :: u64
  tcs_max_num :: u64
  td_template :: thread_data
  tcs_template :: "u8 list"
  enclave_image_address :: u64
  elrange_start_address :: u64
  elrange_size :: u64
  ecall_table :: "(bool \<times> addr) list"
  nr_ocall :: u64
  entry_table :: "bool list"
  pthread_linked :: bool
  pthread_thread_run :: addr

text \<open>
  The variables of the runtime. \<open>tds\<close> holds the thread data that belongs to a TCS, \<open>memory\<close> the rest of the
  enclave's memory, \<open>tls_state\<close> the state word of the pthread library in a thread's TLS. The list of
  saved TCS addresses (\<^verbatim>\<open>g_tcs_node\<close>) holds the encoded pointers in list order.
\<close>

record trts =
  g_enclave_state :: u32
  gdata :: global_data
  rsrv :: rsrv_globals
  erange :: enclave_range
  g_sdk_version :: u32
  g_cpu_core_num :: u32
  stack_chk_guard :: u64
  memory :: mem
  tds :: "addr \<Rightarrow> thread_data"
  tls_state :: "addr \<Rightarrow> sgx_status"
  g_tcs_cookie :: u64
  g_tcs_node :: "u64 list"
  g_is_first_ecall :: bool
  g_ife_lock :: u32
  g_uninit_flag :: u32

abbreviation (input) ENCLAVE_INIT_NOT_STARTED :: u32 where "ENCLAVE_INIT_NOT_STARTED \<equiv> 0"
abbreviation (input) ENCLAVE_INIT_IN_PROGRESS :: u32 where "ENCLAVE_INIT_IN_PROGRESS \<equiv> 1"
abbreviation (input) ENCLAVE_INIT_DONE :: u32 where "ENCLAVE_INIT_DONE \<equiv> 2"
abbreviation (input) ENCLAVE_CRASHED :: u32 where "ENCLAVE_CRASHED \<equiv> 3"

abbreviation (input) SGX_UTILITY_THREAD :: u64 where "SGX_UTILITY_THREAD \<equiv> 1"

definition set_enclave_state :: "u32 \<Rightarrow> trts \<Rightarrow> trts" where
  "set_enclave_state st s = s\<lparr>g_enclave_state := st\<rparr>"

definition sgx_is_enclave_crashed :: "trts \<Rightarrow> bool" where
  "sgx_is_enclave_crashed s \<longleftrightarrow> g_enclave_state s = ENCLAVE_CRASHED"

text \<open>The thread data of the running thread; \<open>None\<close> is the null pointer of a thread never initialized.\<close>

definition get_thread_data :: "trts \<Rightarrow> addr \<Rightarrow> thread_data option" where
  "get_thread_data s tcs = (if self_addr (tds s tcs) = NULL then None else Some (tds s tcs))"

definition set_td :: "addr \<Rightarrow> thread_data \<Rightarrow> trts \<Rightarrow> trts" where
  "set_td tcs td s = s\<lparr>tds := (tds s)(tcs := td)\<rparr>"

section \<open>Helpers\<close>

definition TD2TCS :: "thread_data \<Rightarrow> addr" where
  "TD2TCS td = stack_base_addr td + STATIC_STACK_SIZE + SE_GUARD_PAGE_SIZE"

definition TCS2CANARY :: "addr \<Rightarrow> addr" where
  "TCS2CANARY a = a - SE_GUARD_PAGE_SIZE - STATIC_STACK_SIZE + 8"

definition is_stack_addr :: "thread_data \<Rightarrow> addr \<Rightarrow> u64 \<Rightarrow> bool" where
  "is_stack_addr td a sz \<longleftrightarrow> a \<le> a + sz \<and> stack_base_addr td \<ge> a + sz \<and> stack_limit_addr td \<le> a"

definition is_valid_sp :: "thread_data \<Rightarrow> addr \<Rightarrow> bool" where
  "is_valid_sp td sp \<longleftrightarrow> sp AND 7 = 0 \<and> is_stack_addr td sp 0"

definition is_utility_thread :: "trts \<Rightarrow> addr \<Rightarrow> bool" where
  "is_utility_thread s tcs \<longleftrightarrow>
     (case get_thread_data s tcs of None \<Rightarrow> False | Some td \<Rightarrow> td_flags td AND SGX_UTILITY_THREAD \<noteq> 0)"

definition get_max_tcs_num :: "enclave_image \<Rightarrow> u64" where
  "get_max_tcs_num img = tcs_max_num img"

definition check_static_stack_canary :: "trts \<Rightarrow> addr \<Rightarrow> int" where
  "check_static_stack_canary s tcs =
     (if load64 (memory s) (TCS2CANARY tcs) \<noteq> stack_chk_guard s then -1 else 0)"

definition init_static_stack_canary :: "addr \<Rightarrow> trts \<Rightarrow> trts" where
  "init_static_stack_canary tcs s = s\<lparr>memory := store64 (memory s) (TCS2CANARY tcs) (stack_chk_guard s)\<rparr>"

text \<open>
  \<open>feature_supported\<close> reads one bit of an array of 64-bit words; a word whose top bit is set ends it. Bit
  positions are 32-bit words; \<open>None\<close> stands for reading behind the array.
\<close>

function feature_walk :: "u64 list \<Rightarrow> u32 \<Rightarrow> nat \<Rightarrow> bool option" where
  "feature_walk f_set feature_shift i =
     (if length f_set \<le> i then None
      else if push_bit 6 (word_of_nat (i + 1)) \<le> feature_shift
      then if f_set ! i AND push_bit 63 1 \<noteq> 0 then Some False else feature_walk f_set feature_shift (i + 1)
      else Some (f_set ! i AND push_bit (unat (feature_shift - push_bit 6 (word_of_nat i))) 1 \<noteq> 0))"
  by pat_completeness auto
termination
  by (relation "measure (\<lambda>(f_set, _, i). length f_set - i)") auto

declare feature_walk.simps [simp del]

definition feature_supported :: "u64 list option \<Rightarrow> u32 \<Rightarrow> bool option" where
  "feature_supported feature_set feature_shift =
     (case feature_set of None \<Rightarrow> Some False | Some f_set \<Rightarrow> feature_walk f_set feature_shift 0)"

section \<open>Initializing a thread\<close>

text \<open>\<^verbatim>\<open>memcpy_s\<close> (\<^verbatim>\<open>sdk/tsafecrt/pal/src/safecrt/memcpy_s.c\<close>) clears the destination when the source is too long.\<close>

definition memcpy_s :: "mem \<Rightarrow> addr \<Rightarrow> u64 \<Rightarrow> addr \<Rightarrow> u64 \<Rightarrow> mem" where
  "memcpy_s m dst sizeInBytes src count =
     (if count = 0 then m
      else if dst = NULL then m
      else if src = NULL \<or> sizeInBytes < count then mem_fill m dst sizeInBytes 0
      else put_bytes m dst (get_bytes m src (unat count)))"

definition init_thread_data :: "enclave_image \<Rightarrow> addr \<Rightarrow> bool \<Rightarrow> trts \<Rightarrow> thread_data" where
  "init_thread_data img tcs enclave_init s =
     (let g = gdata s; td = tds s tcs; t = td_template img;
          limit = stack_limit_addr t + tcs in
      t\<lparr>last_sp := last_sp t + tcs - STATIC_STACK_SIZE,
        self_addr := self_addr t + tcs,
        stack_base_addr := stack_base_addr t + tcs - STATIC_STACK_SIZE,
        stack_limit_addr := limit,
        first_ssa_gpr := first_ssa_gpr t + tcs,
        tls_array := tls_array t + tcs,
        tls_addr := tls_addr t + tcs,
        stack_guard := stack_guard td,
        td_flags := (if EDMM_supported g \<and> enclave_init then SGX_UTILITY_THREAD else td_flags td),
        stack_commit_addr :=
          (if stack_commit_addr td = 0
           then if EDMM_supported g \<and> (enclave_init \<or> is_dynamic_thread g (rsrv s) tcs)
                then limit + page_bytes (get_dynamic_stack_max_page g) else limit
           else stack_commit_addr td)\<rparr>)"

definition do_init_thread :: "enclave_image \<Rightarrow> addr \<Rightarrow> bool \<Rightarrow> trts \<Rightarrow> sgx_status \<times> trts" where
  "do_init_thread img tcs enclave_init s =
     (let td = init_thread_data img tcs enclave_init s;
          s = init_static_stack_canary tcs (set_td tcs td s) in
      case elf_tls_info (memory s) (image_base (gdata s)) of
        None \<Rightarrow> (SGX_ERROR_UNEXPECTED, s)
      | Some (tls, tdata_size) \<Rightarrow>
          if tls \<noteq> NULL
          then let m = mem_fill (memory s) (TRIM_TO_PAGE (tls_addr td)) (ROUND_TO (self_addr td - tls_addr td) SE_PAGE_SIZE) 0 in
               (SGX_SUCCESS, s\<lparr>memory := memcpy_s m (tls_addr td) (self_addr td - tls_addr td) tls tdata_size,
                               tls_state := (tls_state s)(tcs := SGX_SUCCESS)\<rparr>)
          else (SGX_SUCCESS, s))"

text \<open>
  The stack guard of a thread about to be initialized: 8 random bytes written to its thread data.
  \<open>rdrand\<close> is the instruction, as in \<^verbatim>\<open>sgx_read_rand\<close>; the buffer is a variable on the trusted stack.
\<close>

definition le_word :: "u8 list \<Rightarrow> u64" where
  "le_word bs = load_le (length bs) (\<lambda>a. bs ! unat a) 0"

definition read_rand64 :: "(nat \<Rightarrow> u32 option) \<Rightarrow> u64 option" where
  "read_rand64 rdrand =
     (case read_rand_loop rdrand 0 8 of (SGX_SUCCESS, bs) \<Rightarrow> Some (le_word bs) | _ \<Rightarrow> None)"

definition init_stack_guard :: "enclave_image \<Rightarrow> (nat \<Rightarrow> u32 option) \<Rightarrow> addr \<Rightarrow> trts \<Rightarrow> trts exec" where
  "init_stack_guard img rdrand tcs s =
     (case get_thread_data s tcs of
        Some td \<Rightarrow>
          if stack_base_addr td = last_sp td \<and> thread_policy img \<noteq> 0
          then (case read_rand64 rdrand of None \<Rightarrow> Inl Abort | Some v \<Rightarrow> Inr (set_td tcs (td\<lparr>stack_guard := v\<rparr>) s))
          else Inr s
      | None \<Rightarrow>
          (case read_rand64 rdrand of
             None \<Rightarrow> Inl Abort | Some v \<Rightarrow> Inr (set_td tcs ((tds s tcs)\<lparr>stack_guard := v\<rparr>) s)))"

section \<open>An initialized thread\<close>

lemma do_init_thread_success:
  assumes "do_init_thread img tcs ini s = (SGX_SUCCESS, s')"
  obtains tls n where
    "elf_tls_info (store64 (memory s) (TCS2CANARY tcs) (stack_chk_guard s)) (image_base (gdata s)) = Some (tls, n)"
    "tds s' = (tds s)(tcs := init_thread_data img tcs ini s)"
    "stack_chk_guard s' = stack_chk_guard s"
    "memory s' =
      (let td = init_thread_data img tcs ini s; m = store64 (memory s) (TCS2CANARY tcs) (stack_chk_guard s) in
       if tls = NULL then m
       else memcpy_s (mem_fill m (TRIM_TO_PAGE (tls_addr td)) (ROUND_TO (self_addr td - tls_addr td) SE_PAGE_SIZE) 0)
              (tls_addr td) (self_addr td - tls_addr td) tls n)"
  using assms
  by (auto simp: do_init_thread_def Let_def init_static_stack_canary_def set_td_def
      split: option.splits if_splits)

text \<open>
  C22. A thread that \<^verbatim>\<open>do_init_thread\<close> has initialized is ready for a root ECALL: its stack pointer is at its
  stack base, from which its TCS can be recovered, the stack canary cell lies right above that base,
  its stack guard survives, it becomes the utility thread exactly when it initializes the enclave with
  dynamic memory, its committed stack is never changed by a second initialization and starts at the
  stack limit (above the dynamically committable pages where there are some), the runtime finds it
  again, and no other thread is touched. The template is the one the loader fills in: stack base and
  last stack pointer one guard page below the TCS.
\<close>
theorem do_init_thread_establishes:
  fixes img :: enclave_image
  defines "t \<equiv> td_template img"
  assumes tmpl: "last_sp t = stack_base_addr t" "stack_base_addr t = - SE_GUARD_PAGE_SIZE" "self_addr t + tcs \<noteq> NULL"
    and ok: "do_init_thread img tcs ini s = (SGX_SUCCESS, s')"
  defines "td \<equiv> tds s' tcs"
  shows "get_thread_data s' tcs = Some td \<and> last_sp td = stack_base_addr td \<and> TD2TCS td = tcs
    \<and> TCS2CANARY tcs = stack_base_addr td + 8 \<and> stack_guard td = stack_guard (tds s tcs)
    \<and> (is_utility_thread s' tcs \<longleftrightarrow>
         EDMM_supported (gdata s) \<and> ini \<or> td_flags (tds s tcs) AND SGX_UTILITY_THREAD \<noteq> 0)
    \<and> stack_commit_addr td =
        (if stack_commit_addr (tds s tcs) \<noteq> 0 then stack_commit_addr (tds s tcs)
         else stack_limit_addr td +
           (if EDMM_supported (gdata s) \<and> (ini \<or> is_dynamic_thread (gdata s) (rsrv s) tcs)
            then page_bytes (get_dynamic_stack_max_page (gdata s)) else 0))
    \<and> (\<forall>u. u \<noteq> tcs \<longrightarrow> tds s' u = tds s u)"
proof -
  from ok have s': "tds s' = (tds s)(tcs := init_thread_data img tcs ini s)"
    by (rule do_init_thread_success)
  then have td: "td = init_thread_data img tcs ini s" by (simp add: td_def)
  have get: "get_thread_data s' tcs = Some td"
    using s' td tmpl(3) by (simp add: get_thread_data_def init_thread_data_def Let_def t_def)
  show ?thesis
    using s' td get tmpl(1,2)
    by (auto simp: init_thread_data_def Let_def t_def TD2TCS_def TCS2CANARY_def is_utility_thread_def)
qed

lemma round_up_to_page_end:
  fixes lo hi :: nat
  assumes "lo \<le> hi" "hi mod 4096 = 0"
  shows "(hi - lo + 4095) - (hi - lo + 4095) mod 4096 = hi - (lo - lo mod 4096)"
proof -
  obtain k where k: "hi = 4096 * k" using assms(2) by (auto elim: dvdE)
  define q r where "q = lo div 4096" and "r = lo mod 4096"
  have lo: "lo = 4096 * q + r" and r: "r < 4096" by (simp_all add: q_def r_def)
  from assms(1) k lo obtain d where d: "k = q + d" using le_Suc_ex [of q k] by fastforce
  have x: "hi - lo + 4095 = 4096 * d + (4095 - r)"
    using r assms(1) unfolding k lo d by simp
  have "(4096 * d + (4095 - r)) mod 4096 = (4095 - r) mod 4096" by (rule mod_mult_self4)
  also have "\<dots> = 4095 - r" by simp
  finally have "(hi - lo + 4095) - (hi - lo + 4095) mod 4096 = 4096 * d" unfolding x by simp
  also have "\<dots> = hi - (lo - lo mod 4096)" using r unfolding k d lo by simp
  finally show ?thesis .
qed

lemma unat_round_to_page_end:
  assumes "unat lo \<le> unat (hi :: u64)" "unat hi mod 4096 = 0"
  shows "unat (ROUND_TO (hi - lo) SE_PAGE_SIZE) = unat hi - unat (TRIM_TO_PAGE lo)"
proof -
  have hi: "unat hi + 4096 \<le> 2 ^ 64"
  proof -
    obtain k where k: "unat hi = 4096 * k" using assms(2) by (auto elim: dvdE)
    with unat_u64 [of hi] have "k < 2 ^ 52" by simp
    with k show ?thesis by simp
  qed
  have d: "unat (hi - lo) = unat hi - unat lo" using assms(1) by (simp add: unat_sub word_le_nat_alt)
  have "unat (hi - lo + 0xFFF) = unat hi - unat lo + 4095"
    using hi d by (simp add: unat_word_ariths)
  then have "unat (ROUND_TO (hi - lo) SE_PAGE_SIZE) =
      (unat hi - unat lo + 4095) - (unat hi - unat lo + 4095) mod 4096"
    using unat_TRIM_TO_PAGE [of "hi - lo + 0xFFF"] by (simp add: ROUND_TO_def TRIM_TO_PAGE_def)
  also have "\<dots> = unat hi - (unat lo - unat lo mod 4096)"
    using assms by (rule round_up_to_page_end)
  finally show ?thesis by (simp only: unat_TRIM_TO_PAGE)
qed

definition demo_td :: thread_data where
  "demo_td = \<lparr>self_addr = 0x4000, last_sp = - 0x10000, stack_base_addr = - 0x10000, stack_limit_addr = - 0x14000,
     first_ssa_gpr = 0x1f48, stack_guard = 0, td_flags = 0, xsave_size = 0x340, last_error = 0, td_next = 0,
     tls_addr = 0x3ff0, tls_array = 0, exception_flag = 0, cxx_thread_info = [0, 0, 0, 0, 0, 0], stack_commit_addr = 0\<rparr>"

definition demo_image :: enclave_image where
  "demo_image = \<lparr>thread_policy = 0, tcs_max_num = 1, td_template = demo_td, tcs_template = replicate 72 0, enclave_image_address = 0,
     elrange_start_address = 0, elrange_size = 0x100000, ecall_table = [(False, 0x101000), (True, 0x101100)],
     nr_ocall = 1, entry_table = [False, True], pthread_linked = False, pthread_thread_run = 0x101200\<rparr>"

definition demo_memory :: mem where
  "demo_memory x = (case map_of [(0x100000, 0x7f), (0x100001, 0x45), (0x100002, 0x4c), (0x100003, 0x46), (0x100010, 3),
     (0x100020, 0x40), (0x100038, 1), (0x100040, 7), (0x100051, 0x30), (0x100060, 2), (0x103000, 0xaa), (0x103001, 0xbb)] x
     of Some b \<Rightarrow> b | None \<Rightarrow> 0)"

definition demo_trts :: trts where
  "demo_trts = \<lparr>g_enclave_state = ENCLAVE_INIT_DONE, gdata = demo_layout, rsrv = demo_rsrv,
     erange = \<lparr>g_enclave_base = 0x100000, g_enclave_size = 0x100000\<rparr>, g_sdk_version = 2, g_cpu_core_num = 1,
     stack_chk_guard = 0x1234, memory = demo_memory, tds = (\<lambda>_. demo_td\<lparr>self_addr := 0, stack_guard := 77\<rparr>),
     tls_state = (\<lambda>_. SGX_SUCCESS), g_tcs_cookie = 0, g_tcs_node = [], g_is_first_ecall = True, g_ife_lock = 0,
     g_uninit_flag = 0\<rparr>"

lemma demo_tls_info:
  "elf_tls_info (store64 demo_memory (TCS2CANARY 0x120000) 0x1234) 0x100000 = Some (0x103000, 2)"
  by code_simp

lemma demo_init_thread:
  obtains s' where "do_init_thread demo_image 0x120000 True demo_trts = (SGX_SUCCESS, s')"
    "tls_addr (tds s' 0x120000) = 0x123ff0" "self_addr (tds s' 0x120000) = 0x124000"
proof -
  obtain s' where ok: "do_init_thread demo_image 0x120000 True demo_trts = (SGX_SUCCESS, s')"
    using demo_tls_info
    by (simp add: do_init_thread_def Let_def init_static_stack_canary_def set_td_def demo_trts_def demo_layout_def)
  have "tds s' = (tds demo_trts)(0x120000 := init_thread_data demo_image 0x120000 True demo_trts)"
    by (rule do_init_thread_success [OF ok])
  then show ?thesis using that [OF ok] by (simp add: init_thread_data_def Let_def demo_image_def demo_td_def)
qed

theorem do_init_thread_establishes_witness:
  "\<exists>s'. do_init_thread demo_image 0x120000 True demo_trts = (SGX_SUCCESS, s') \<and>
     last_sp (tds s' 0x120000) = stack_base_addr (tds s' 0x120000) \<and> TD2TCS (tds s' 0x120000) = 0x120000 \<and>
     stack_guard (tds s' 0x120000) = 77 \<and> is_utility_thread s' 0x120000"
proof -
  obtain s' where ok: "do_init_thread demo_image 0x120000 True demo_trts = (SGX_SUCCESS, s')"
    by (rule demo_init_thread)
  show ?thesis
    using do_init_thread_establishes [OF _ _ _ ok] ok
    by (simp add: demo_image_def demo_td_def demo_trts_def demo_layout_def)
qed

text \<open>
  C23. The thread-local storage of an initialized thread holds the initial image of the enclave's TLS
  segment followed by zeros: the area cleared by \<^verbatim>\<open>do_init_thread\<close> reaches from the page of the TLS block
  exactly up to the thread data behind it, the initialized data is copied to the start of the block,
  and, apart from the canary, no other byte of memory changes. The thread data is page aligned, the
  initialized data fits, and its original lies elsewhere.
\<close>
theorem do_init_thread_tls:
  fixes img :: enclave_image and s :: trts
  assumes ok: "do_init_thread img tcs ini s = (SGX_SUCCESS, s')"
  defines "td \<equiv> tds s' tcs" and "m \<equiv> store64 (memory s) (TCS2CANARY tcs) (stack_chk_guard s)"
  defines "area \<equiv> {x. unat (TRIM_TO_PAGE (tls_addr td)) \<le> unat x \<and> unat x < unat (self_addr td)}"
  assumes info: "elf_tls_info m (image_base (gdata s)) = Some (tls, n)" "tls \<noteq> NULL"
    and fits: "unat (tls_addr td) + unat n \<le> unat (self_addr td)" "tls_addr td \<noteq> NULL" "unat (self_addr td) mod 4096 = 0"
    and src: "\<And>i. i < unat n \<Longrightarrow> tls + word_of_nat i \<notin> area"
  shows "memory s' x =
    (if x \<in> area
     then if unat (tls_addr td) \<le> unat x \<and> unat x < unat (tls_addr td) + unat n then m (tls + (x - tls_addr td)) else 0
     else m x)"
proof -
  define lo hi where "lo = tls_addr td" and "hi = self_addr td"
  define f where "f = mem_fill m (TRIM_TO_PAGE lo) (ROUND_TO (hi - lo) SE_PAGE_SIZE) 0"
  have le: "unat lo \<le> unat hi" using fits(1) by (simp add: lo_def hi_def)
  have tds: "td = init_thread_data img tcs ini s" unfolding td_def by (rule do_init_thread_success [OF ok]) simp
  from ok obtain tls' n' where "elf_tls_info m (image_base (gdata s)) = Some (tls', n')"
    and mem: "memory s' =
      (let td = init_thread_data img tcs ini s in
       if tls' = NULL then m
       else memcpy_s (mem_fill m (TRIM_TO_PAGE (tls_addr td)) (ROUND_TO (self_addr td - tls_addr td) SE_PAGE_SIZE) 0)
              (tls_addr td) (self_addr td - tls_addr td) tls' n')"
    unfolding m_def by (rule do_init_thread_success) (simp add: Let_def)
  with info tds have mem: "memory s' = memcpy_s f lo (hi - lo) tls n"
    by (simp add: Let_def f_def lo_def hi_def)
  have T: "unat (TRIM_TO_PAGE lo) \<le> unat lo" by (simp add: unat_TRIM_TO_PAGE)
  have f: "f y = (if y \<in> area then 0 else m y)" for y
  proof -
    have "unat (TRIM_TO_PAGE lo) \<le> unat hi" using T le by linarith
    then have "y - TRIM_TO_PAGE lo < ROUND_TO (hi - lo) SE_PAGE_SIZE \<longleftrightarrow> y \<in> area"
      using unat_round_to_page_end [OF le] fits(3) unat_sub_if_size [of y "TRIM_TO_PAGE lo"] unat_u64 [of y] unat_u64 [of hi]
      by (auto simp: area_def lo_def [symmetric] hi_def [symmetric] word_less_nat_alt word_size split: if_splits)
    then show ?thesis by (simp add: f_def mem_fill_def)
  qed
  have inside: "unat (y - lo) < unat n \<longleftrightarrow> unat lo \<le> unat y \<and> unat y < unat lo + unat n" for y
    using fits(1) unat_sub_if_size [of y lo] unat_u64 [of y] unat_u64 [of hi]
    by (auto simp: lo_def [symmetric] hi_def [symmetric] word_size split: if_splits)
  have "unat (hi - lo) = unat hi - unat lo" using le by (simp add: unat_sub word_le_nat_alt)
  then have nn: "\<not> hi - lo < n" using fits(1) by (simp add: word_less_nat_alt lo_def [symmetric] hi_def [symmetric])
  have put: "memory s' x = (if unat (x - lo) < unat n then m (tls + (x - lo)) else f x)"
  proof (cases "n = 0")
    case True
    then show ?thesis by (simp add: mem memcpy_s_def)
  next
    case False
    with nn fits(2) info(2) have "memory s' = put_bytes f lo (get_bytes f tls (unat n))"
      by (simp add: mem memcpy_s_def lo_def)
    moreover have "f (tls + (x - lo)) = m (tls + (x - lo))" if "unat (x - lo) < unat n"
      using src [OF that] f [of "tls + (x - lo)"] by (simp add: of_nat_unat)
    ultimately show ?thesis by (simp add: put_bytes_def get_bytes_def of_nat_unat word_less_nat_alt)
  qed
  have sub: "y \<in> area" if "unat lo \<le> unat y" "unat y < unat lo + unat n" for y
    using that T fits(1) by (simp add: area_def lo_def [symmetric] hi_def [symmetric])
  show ?thesis unfolding put inside f using sub [of x] by (auto simp: lo_def [symmetric])
qed

theorem do_init_thread_tls_witness:
  "\<exists>s'. do_init_thread demo_image 0x120000 True demo_trts = (SGX_SUCCESS, s') \<and>
     memory s' 0x123ff0 = 0xaa \<and> memory s' 0x123ff1 = 0xbb \<and> memory s' 0x123ff2 = 0 \<and> memory s' 0x103001 = 0xbb"
proof -
  obtain s' where ok: "do_init_thread demo_image 0x120000 True demo_trts = (SGX_SUCCESS, s')"
    and td: "tls_addr (tds s' 0x120000) = 0x123ff0" "self_addr (tds s' 0x120000) = 0x124000"
    by (rule demo_init_thread)
  have two: "i < 2 \<longleftrightarrow> i = 0 \<or> i = 1" for i :: nat by auto
  have m: "store64 demo_memory (TCS2CANARY 0x120000) 0x1234 0x103000 = 0xaa"
    "store64 demo_memory (TCS2CANARY 0x120000) 0x1234 0x103001 = 0xbb" by code_simp+
  have info: "elf_tls_info (store64 (memory demo_trts) (TCS2CANARY 0x120000) (stack_chk_guard demo_trts))
      (image_base (gdata demo_trts)) = Some (0x103000, 2)"
    using demo_tls_info by (simp add: demo_trts_def demo_layout_def)
  have "memory s' x = (if 0x123000 \<le> unat x \<and> unat x < 0x124000
      then if 0x123ff0 \<le> unat x \<and> unat x < 0x123ff2 then store64 demo_memory (TCS2CANARY 0x120000) 0x1234 (0x103000 + (x - 0x123ff0)) else 0
      else store64 demo_memory (TCS2CANARY 0x120000) 0x1234 x)" for x
  proof -
    have src: "(0x103000 :: u64) + word_of_nat i \<notin> {x. unat (TRIM_TO_PAGE (tls_addr (tds s' 0x120000))) \<le> unat x \<and>
        unat x < unat (self_addr (tds s' 0x120000))}" if "i < unat (2 :: u64)" for i
      using that td by (auto simp: two TRIM_TO_PAGE_def)
    show ?thesis
      using do_init_thread_tls [OF ok info _ _ _ _ src, of x] td by (simp add: TRIM_TO_PAGE_def demo_trts_def)
  qed
  with ok m show ?thesis by simp
qed

section \<open>Feature bits\<close>

lemma feature_walk_exact:
  assumes "t < length fs" "bit (fs ! t) 63" "\<And>j. j < t \<Longrightarrow> \<not> bit (fs ! j) 63"
    and "unat k < 2 ^ 32 - 64" "i \<le> t" "i \<le> unat k div 64"
  shows "feature_walk fs k i = Some (unat k div 64 \<le> t \<and> bit (fs ! (unat k div 64)) (unat k mod 64))"
  using assms(5,6)
proof (induction "t - i" arbitrary: i rule: less_induct)
  case less
  have i: "64 * (i + 1) < 2 ^ 32" using less.prems assms(4) by simp
  have p: "unat (push_bit 6 (word_of_nat j) :: u32) = 64 * j" if "64 * j < 2 ^ 32" for j
    using that by (simp add: push_bit_eq_mult unat_word_ariths unat_of_nat)
  have c: "push_bit 6 (word_of_nat (i + 1)) \<le> k \<longleftrightarrow> 64 * (i + 1) \<le> unat k"
    using p [OF i] by (simp only: word_le_nat_alt)
  have m: "x AND push_bit n 1 \<noteq> 0 \<longleftrightarrow> bit x n" if "n < 64" for x :: u64 and n
    using that by (simp add: and_exp_eq_0_iff_not_bit push_bit_eq_mult)
  show ?case
  proof (cases "64 * (i + 1) \<le> unat k")
    case True
    then have lt: "i < unat k div 64" by (simp add: Suc_le_eq [symmetric] less_eq_div_iff_mult_less_eq mult.commute)
    show ?thesis
    proof (cases "i = t")
      case t: True
      then show ?thesis
        using lt True c m [of 63 "fs ! i"] assms(1,2) by (subst feature_walk.simps) simp
    next
      case False
      then have "i < t" using less.prems by simp
      moreover from this have "feature_walk fs k (i + 1) = Some (unat k div 64 \<le> t \<and> bit (fs ! (unat k div 64)) (unat k mod 64))"
        using lt by (intro less.hyps) auto
      ultimately show ?thesis
        using True c m [of 63 "fs ! i"] assms(1,3) by (subst feature_walk.simps) simp
    qed
  next
    case False
    then have d: "unat k div 64 = i" using less.prems by simp
    have "push_bit 6 (word_of_nat i) \<le> k"
      unfolding word_le_nat_alt using i less.prems by (subst p) auto
    then have "unat (k - push_bit 6 (word_of_nat i)) = unat k - 64 * i"
      using i by (simp add: unat_sub p)
    moreover have "unat k - 64 * i = unat k mod 64" using d by (metis minus_mult_div_eq_mod)
    ultimately show ?thesis
      using False c m [of "unat k mod 64" "fs ! i"] d less.prems assms(1) by (subst feature_walk.simps) simp
  qed
qed

text \<open>
  C24. \<^verbatim>\<open>feature_supported\<close> reads the bit it is asked for and nothing behind the word that ends the feature
  array: for every array with a terminating word and every feature number whose position fits the
  32-bit counter, it returns, and reports a feature exactly when its word is not behind the terminating
  one and its bit is set; without an array it reports none. (The last bit of a word, which marks the end
  of the array, is read like any other when its number is asked for, although the code's comment counts
  only the bits below it as features.)
\<close>
theorem feature_supported_exact:
  assumes "t < length fs" "bit (fs ! t) 63" "\<And>j. j < t \<Longrightarrow> \<not> bit (fs ! j) 63" "unat k < 2 ^ 32 - 64"
  shows "feature_supported (Some fs) k = Some (unat k div 64 \<le> t \<and> bit (fs ! (unat k div 64)) (unat k mod 64))
    \<and> feature_supported None k = Some False"
  using feature_walk_exact [OF assms, of 0] by (simp add: feature_supported_def)

theorem feature_supported_exact_witness:
  "feature_supported (Some [0x8000000000000001, 1]) 0 = Some True \<and> feature_supported (Some [0x8000000000000001, 1]) 64 = Some False"
proof -
  have "bit (0x8000000000000001 :: u64) 63" by (simp add: bit_word_iff_drop_bit_and drop_bit_eq_div)
  then show ?thesis
    using feature_supported_exact [of 0 "[0x8000000000000001, 1]" 0] feature_supported_exact [of 0 "[0x8000000000000001, 1]" 64]
    by simp
qed

end
