(* ===== verification/Trts_Pic.thy ===== *)
theory Trts_Pic
  imports Trts_Thread
begin

text \<open>
  Crossing the enclave boundary: the entry and exit code, OCALLs and their return
  (\<^verbatim>\<open>sdk/trts/linux/trts_pic.S\<close>, x86-64, and \<^verbatim>\<open>sdk/trts/trts_ocall.cpp\<close>) on byte memory and general purpose
  registers. A frame of an OCALL is \<^verbatim>\<open>ocall_context_t\<close> of \<^verbatim>\<open>common/inc/internal/rts.h\<close>. Saving the extended
  registers is a parameter that writes into the area reserved for them; memory below the stack pointer
  is not part of the model.
\<close>

section \<open>Registers and frames\<close>

record regs =
  rax :: u64
  rbx :: u64
  rcx :: u64
  rdx :: u64
  rsi :: u64
  rdi :: u64
  rbp :: u64
  rsp :: u64
  r8 :: u64
  r9 :: u64
  r10 :: u64
  r11 :: u64
  r12 :: u64
  r13 :: u64
  r14 :: u64
  r15 :: u64

text \<open>The registers at EEXIT: everything but \<open>rax\<close>, \<open>rbx\<close>, \<open>rdi\<close>, \<open>rsi\<close> and the stack registers is cleared.\<close>

definition eexit_regs :: "u64 \<Rightarrow> u64 \<Rightarrow> u64 \<Rightarrow> u64 \<Rightarrow> u64 \<Rightarrow> regs" where
  "eexit_regs ret di si bp sp =
     \<lparr>rax = 4, rbx = ret, rcx = 0, rdx = 0, rsi = si, rdi = di, rbp = bp, rsp = sp,
      r8 = 0, r9 = 0, r10 = 0, r11 = 0, r12 = 0, r13 = 0, r14 = 0, r15 = 0\<rparr>"

abbreviation (input) OCALL_FLAG :: u64 where "OCALL_FLAG \<equiv> 0x4F434944"

abbreviation (input) ctx_ocall_flag :: "mem \<Rightarrow> addr \<Rightarrow> u64" where "ctx_ocall_flag m c \<equiv> load64 m (c + 32)"
abbreviation (input) ctx_ocall_index :: "mem \<Rightarrow> addr \<Rightarrow> u64" where "ctx_ocall_index m c \<equiv> load64 m (c + 40)"
abbreviation (input) ctx_pre_last_sp :: "mem \<Rightarrow> addr \<Rightarrow> u64" where "ctx_pre_last_sp m c \<equiv> load64 m (c + 48)"
abbreviation (input) ctx_ocall_depth :: "mem \<Rightarrow> addr \<Rightarrow> u64" where "ctx_ocall_depth m c \<equiv> load64 m (c + 144)"

text \<open>Storing a list of words at offsets from an address.\<close>

fun write_slots :: "mem \<Rightarrow> addr \<Rightarrow> (u64 \<times> u64) list \<Rightarrow> mem" where
  "write_slots m a [] = m"
| "write_slots m a ((c, v) # ws) = write_slots (store64 m (a + c) v) a ws"

section \<open>Entering and leaving\<close>

text \<open>
  \<^verbatim>\<open>enclave_entry\<close> switches to the trusted stack (the static stack for an exception, the last stack
  pointer of the thread or the base of a thread never used) and saves the untrusted return address and
  stack registers, CSSA, TCS and the two arguments. The result is the memory and the frame pointer.
\<close>

definition entry_stack :: "thread_data \<Rightarrow> regs \<Rightarrow> addr" where
  "entry_stack td r =
     (if rax r \<noteq> 0 then rbx r - SE_GUARD_PAGE_SIZE
      else if last_sp td \<noteq> 0 then last_sp td
      else rbx r - SE_GUARD_PAGE_SIZE - STATIC_STACK_SIZE)"

definition enclave_entry :: "thread_data \<Rightarrow> regs \<Rightarrow> mem \<Rightarrow> mem \<times> addr" where
  "enclave_entry td r m =
     (let fp = entry_stack td r - 16 in
      (write_slots m fp [(8, rcx r), (0, rbp r), (-8, rsp r), (-24, rax r), (-32, rbx r), (-40, rsi r), (-48, rdi r)], fp))"

definition exit_enclave :: "mem \<Rightarrow> addr \<Rightarrow> u64 \<Rightarrow> regs" where
  "exit_enclave m fp status =
     eexit_regs (load64 m (fp + 8)) (- 1) status (load64 m fp) (load64 m (fp - 8))"

section \<open>OCALLs\<close>

definition is_builtin_ocall :: "u32 \<Rightarrow> bool" where
  "is_builtin_ocall index \<longleftrightarrow> - 5 \<le> sint index \<and> sint index \<le> - 2"

text \<open>\<open>None\<close> is the result \<^verbatim>\<open>SGX_ERROR_INVALID_FUNCTION\<close>; otherwise \<^verbatim>\<open>do_ocall\<close> runs with the index.\<close>

definition sgx_ocall :: "enclave_image \<Rightarrow> u32 \<Rightarrow> u64 option" where
  "sgx_ocall img index =
     (if index \<noteq> 0 \<and> \<not> is_builtin_ocall index \<and> ucast index \<ge> nr_ocall img then None else Some (ucast index))"

definition update_ocall_lastsp :: "thread_data \<Rightarrow> mem \<Rightarrow> addr \<Rightarrow> u64 \<times> thread_data \<times> mem" where
  "update_ocall_lastsp td m context =
     (let last = last_sp td;
          m = store64 m (context + 48) last;
          depth = (if ctx_pre_last_sp m context = stack_base_addr td then 1
                   else ctx_ocall_depth m (ctx_pre_last_sp m context) + 1) in
      (last, td\<lparr>last_sp := context\<rparr>, store64 m (context + 144) depth))"

text \<open>
  The frame of an OCALL: below the caller's frame pointer the area for the extended registers, 64-byte
  aligned, and below it 20 words.
\<close>

definition xsave_area :: "thread_data \<Rightarrow> regs \<Rightarrow> addr" where
  "xsave_area td r = (rsp r - 8 - xsave_size td) AND NOT 0x3f"

definition do_ocall ::
  "(addr \<Rightarrow> mem \<Rightarrow> mem) \<Rightarrow> u64 \<Rightarrow> thread_data \<Rightarrow> regs \<Rightarrow> mem \<Rightarrow> thread_data \<times> mem \<times> regs" where
  "do_ocall save_xregs synthetic td r m =
     (let bp = rsp r - 8;
          m = write_slots m bp [(0, rbp r), (16, rdi r), (24, rsi r)];
          xs = xsave_area td r;
          sp = xs - 160;
          m = write_slots m sp [(152, xs), (112, rbx r), (104, rsi r), (96, rdi r), (88, bp),
                (80, r12 r), (72, r13 r), (64, r14 r), (56, r15 r)];
          m = mem_fill m xs (push_bit 2 (drop_bit 2 (xsave_size td))) 0;
          m = save_xregs xs (store64 m sp xs);
          m = store64 m sp synthetic;
          m = write_slots m sp [(32, OCALL_FLAG), (40, load64 m (sp + 96))];
          (last, td, m) = update_ocall_lastsp td m sp in
      (td, m, eexit_regs (load64 m (last - 8)) (load64 m (sp + 96)) (load64 m (sp + 104))
                (load64 m (first_ssa_gpr td + 152)) (load64 m (first_ssa_gpr td + 144))))"

text \<open>
  The wrapper \<^verbatim>\<open>__morestack\<close> pushes a frame pointer and four words and calls \<^verbatim>\<open>do_ocall\<close>; \<open>ret\<close> is the return
  address of that call.
\<close>

definition morestack :: "regs \<Rightarrow> mem \<Rightarrow> addr \<Rightarrow> regs \<times> mem" where
  "morestack r m ret =
     (let bp = rsp r - 8; sp = bp - 40 in
      (r\<lparr>rbp := bp, rsp := sp\<rparr>, store64 (store64 m bp (rbp r)) sp ret))"

text \<open>
  \<^verbatim>\<open>do_oret\<close> checks the frame to return to; \<open>local\<close> is the address of its local variable. It either fails or
  passes the frame to \<^verbatim>\<open>asm_oret\<close>.
\<close>

definition do_oret :: "thread_data \<Rightarrow> mem \<Rightarrow> addr \<Rightarrow> (addr \<times> thread_data) option" where
  "do_oret td m local =
     (let last = last_sp td in
      if last = 0 \<or> last \<le> local then None
      else if last > stack_base_addr td - 30 * 8 then None
      else if ctx_ocall_flag m last \<noteq> OCALL_FLAG then None
      else if ctx_pre_last_sp m last > stack_base_addr td \<or> ctx_pre_last_sp m last \<le> last then None
      else Some (last, td\<lparr>last_sp := ctx_pre_last_sp m last\<rparr>))"

text \<open>
  \<^verbatim>\<open>asm_oret\<close> restores the saved registers, clears the area of the extended registers and returns from
  \<^verbatim>\<open>do_ocall\<close>: the registers, the address returned to, and the memory. \<open>r\<close> are the registers at its call, and
  \<open>ra\<close> the address that the call of \<^verbatim>\<open>restore_xregs\<close> pushes below the frame (\<^verbatim>\<open>restore_xregs\<close> itself uses no stack;
  its scratch register \<^verbatim>\<open>rdx\<close> is not followed).
\<close>

definition asm_oret :: "u64 \<Rightarrow> regs \<Rightarrow> mem \<Rightarrow> regs \<times> addr \<times> mem" where
  "asm_oret ra r m =
     (let b = rsp r;
          m = write_slots m b [(8, rdi r), (16, rsi r)];
          sp = load64 m (b + 8);
          xs = load64 m (sp + 152);
          m = store64 m (sp - 8) ra;
          n = push_bit 2 (drop_bit 2 (load64 m (sp + 88) - xs - 8));
          m = mem_fill m xs n 0;
          bp = load64 m (sp + 88) in
      (r\<lparr>rax := load64 m (b + 16), rcx := 0, r15 := load64 m (sp + 56), r14 := load64 m (sp + 64), r13 := load64 m (sp + 72),
         r12 := load64 m (sp + 80), rdi := load64 m (sp + 96), rsi := load64 m (sp + 104), rbx := load64 m (sp + 112),
         rbp := load64 m bp, rsp := bp + 16\<rparr>,
       load64 m (bp + 8), m))"

section \<open>The frame of an ECALL\<close>

lemma load_write_slots_other:
  "(\<And>c. c \<in> fst ` set ws \<Longrightarrow> apart a 8 (p + c) 8) \<Longrightarrow> load64 (write_slots m p ws) a = load64 m a"
proof (induction ws arbitrary: m)
  case (Cons w ws)
  obtain c v where w: "w = (c, v)" by (cases w)
  have "load64 (write_slots m p (w # ws)) a = load64 (store64 m (p + c) v) a"
    unfolding w write_slots.simps by (rule Cons.IH) (use Cons.prems in auto)
  also have "\<dots> = load64 m a"
    by (rule load_store_other) (use Cons.prems [of c] w in auto)
  finally show ?case .
qed simp

lemma write_slots_outside:
  "(\<And>c. c \<in> fst ` set ws \<Longrightarrow> x \<notin> window (p + c) 8) \<Longrightarrow> write_slots m p ws x = m x"
proof (induction ws arbitrary: m)
  case (Cons w ws)
  obtain c v where w: "w = (c, v)" by (cases w)
  have "write_slots m p (w # ws) x = store64 m (p + c) v x"
    unfolding w write_slots.simps by (rule Cons.IH) (use Cons.prems in auto)
  also have "\<dots> = m x" by (rule store_outside) (use Cons.prems [of c] w in auto)
  finally show ?case .
qed simp

text \<open>
  C27. An ECALL returns where it came from and leaks no register: when the trusted code run in between
  leaves the three saved words above the entry frame alone, \<^verbatim>\<open>enclave_entry\<close> and its exit path restore the
  untrusted stack and frame pointer, continue behind the EENTER, hand out the status, and clear every
  other general purpose register. The saved words are also where an OCALL finds its return address and
  \<^verbatim>\<open>sgx_ocfree\<close> the stack pointer, one and three words below the stack the entry started from.
\<close>
theorem ecall_frame_roundtrip:
  fixes td :: thread_data and r :: regs and m :: mem
  defines "fp \<equiv> snd (enclave_entry td r m)" and "m1 \<equiv> fst (enclave_entry td r m)"
  assumes keep: "\<And>x. x \<in> window (fp - 8) 24 \<Longrightarrow> m2 x = m1 x"
  shows "exit_enclave m2 fp status =
      \<lparr>rax = 4, rbx = rcx r, rcx = 0, rdx = 0, rsi = status, rdi = - 1, rbp = rbp r, rsp = rsp r,
       r8 = 0, r9 = 0, r10 = 0, r11 = 0, r12 = 0, r13 = 0, r14 = 0, r15 = 0\<rparr>
    \<and> load64 m1 (entry_stack td r - 8) = rcx r \<and> load64 m1 (entry_stack td r - 24) = rsp r
    \<and> (rax r = 0 \<and> last_sp td \<noteq> 0 \<longrightarrow> entry_stack td r = last_sp td)"
proof -
  have fp: "fp = entry_stack td r - 16" and m1: "m1 = write_slots m fp
      [(8, rcx r), (0, rbp r), (-8, rsp r), (-24, rax r), (-32, rbx r), (-40, rsi r), (-48, rdi r)]"
    by (simp_all add: fp_def m1_def enclave_entry_def Let_def)
  have l: "load64 m1 (fp + 8) = rcx r" "load64 m1 fp = rbp r" "load64 m1 (fp - 8) = rsp r"
    by (simp_all add: m1 mem_simps)
  have k: "load64 m2 (fp + 8) = load64 m1 (fp + 8)" "load64 m2 fp = load64 m1 fp" "load64 m2 (fp - 8) = load64 m1 (fp - 8)"
  proof -
    have s: "x \<in> window (fp - 8) 24" if "x \<in> window (fp - 8 + d) 8" "unat d \<le> 16" for x d
      using window_shift [OF that(1), of 24] that(2) by simp
    show "load64 m2 (fp + 8) = load64 m1 (fp + 8)"
      by (rule load_window) (rule keep, rule s [of _ 16], simp_all add: add.commute)
    show "load64 m2 fp = load64 m1 fp"
      by (rule load_window) (rule keep, rule s [of _ 8], simp_all)
    show "load64 m2 (fp - 8) = load64 m1 (fp - 8)"
      by (rule load_window) (rule keep, rule s [of _ 0], simp_all)
  qed
  from l fp have "load64 m1 (entry_stack td r - 8) = rcx r" "load64 m1 (entry_stack td r - 24) = rsp r"
    by (simp_all add: algebra_simps)
  with l k show ?thesis by (simp add: exit_enclave_def eexit_regs_def entry_stack_def)
qed

definition demo_thread :: thread_data where
  "demo_thread = demo_td\<lparr>self_addr := 0x124000, last_sp := 0x10fd50, stack_base_addr := 0x10fd50,
     stack_limit_addr := 0x10c000, first_ssa_gpr := 0x121f48\<rparr>"

definition demo_regs :: regs where
  "demo_regs = \<lparr>rax = 0, rbx = 0x120000, rcx = 0x400123, rdx = 0, rsi = 0x7000, rdi = 5, rbp = 0x10fc00, rsp = 0x10f000,
     r8 = 0, r9 = 0, r10 = 0, r11 = 0, r12 = 12, r13 = 13, r14 = 14, r15 = 15\<rparr>"

theorem ecall_frame_roundtrip_witness:
  "exit_enclave (fst (enclave_entry demo_thread demo_regs demo_memory)) 0x10fd40 0 =
     \<lparr>rax = 4, rbx = 0x400123, rcx = 0, rdx = 0, rsi = 0, rdi = - 1, rbp = 0x10fc00, rsp = 0x10f000,
      r8 = 0, r9 = 0, r10 = 0, r11 = 0, r12 = 0, r13 = 0, r14 = 0, r15 = 0\<rparr>"
proof -
  have "snd (enclave_entry demo_thread demo_regs demo_memory) = 0x10fd40"
    by (simp add: enclave_entry_def entry_stack_def Let_def demo_thread_def demo_regs_def)
  with ecall_frame_roundtrip [OF refl, of demo_thread demo_regs demo_memory 0] show ?thesis
    by (simp add: demo_regs_def)
qed

section \<open>Pending OCALLs form a stack of frames\<close>

text \<open>
  \<open>ocall_frames m base p fs\<close>: from the stack pointer \<open>p\<close> the frames of the pending OCALLs are \<open>fs\<close>, innermost
  first; the last one leads to the base of the stack, and each carries its depth.
\<close>

fun ocall_frames :: "mem \<Rightarrow> u64 \<Rightarrow> addr \<Rightarrow> addr list \<Rightarrow> bool" where
  "ocall_frames m base p [] \<longleftrightarrow> p = base"
| "ocall_frames m base p (f # fs) \<longleftrightarrow>
     p = f \<and> f \<noteq> 0 \<and> unat f + 240 \<le> unat base \<and> ctx_ocall_flag m f = OCALL_FLAG \<and>
     f < ctx_pre_last_sp m f \<and> ctx_pre_last_sp m f \<le> base \<and>
     ctx_ocall_depth m f = word_of_nat (Suc (length fs)) \<and> ocall_frames m base (ctx_pre_last_sp m f) fs"

lemma unat_plus_small: "unat (f :: u64) + unat c < 2 ^ 64 \<Longrightarrow> unat (f + c) = unat f + unat c"
  by (simp add: unat_word_ariths)

lemma load_above:
  assumes "\<And>x. unat p \<le> unat x \<Longrightarrow> m' x = m x" "unat p \<le> unat a" "unat a + k \<le> 2 ^ 64"
  shows "(load_le k m' a :: 'a::len word) = load_le k m a"
proof (rule load_cong)
  fix i
  assume i: "i < k"
  then have "unat (word_of_nat i :: addr) = i" using assms(3) by (simp add: unat_of_nat)
  then have "unat (a + word_of_nat i) = unat a + i"
    using unat_plus_small [of a "word_of_nat i"] assms(3) i by simp
  then show "m' (a + word_of_nat i) = m (a + word_of_nat i)" using assms(1,2) by simp
qed

lemma ocall_frames_above:
  assumes "ocall_frames m base p fs" "\<And>x. unat p \<le> unat x \<Longrightarrow> m' x = m x"
  shows "ocall_frames m' base p fs"
  using assms
proof (induction fs arbitrary: p)
  case (Cons f fs)
  have f: "p = f" "unat f + 240 \<le> unat base" using Cons.prems(1) by auto
  have l: "load64 m' (f + c) = load64 m (f + c)" if "unat c \<le> 144" for c
  proof -
    have u: "unat (f + c) = unat f + unat c"
      using f(2) that unat_u64 [of base] by (intro unat_plus_small) linarith
    show ?thesis
      by (rule load_above [of f]) (use Cons.prems(2) f that u unat_u64 [of base] in auto)
  qed
  have "ocall_frames m' base (ctx_pre_last_sp m f) fs"
  proof (rule Cons.IH)
    show "ocall_frames m base (ctx_pre_last_sp m f) fs" using Cons.prems(1) by simp
    fix x :: addr
    assume "unat (ctx_pre_last_sp m f) \<le> unat x"
    moreover have "unat f < unat (ctx_pre_last_sp m f)" using Cons.prems(1) by (simp add: word_less_nat_alt)
    ultimately show "m' x = m x" using Cons.prems(2) f(1) by simp
  qed
  with Cons.prems(1) l show ?case by simp
qed simp

text \<open>Where the frame of an OCALL lies.\<close>

definition ocall_room :: "thread_data \<Rightarrow> regs \<Rightarrow> bool" where
  "ocall_room td r \<longleftrightarrow> unat (xsave_size td) + 0x200 \<le> unat (rsp r) \<and> unat (rsp r) + 0x100 \<le> unat (last_sp td)"

text \<open>Saving the extended registers writes only into their area.\<close>

definition xsave_confined :: "thread_data \<Rightarrow> regs \<Rightarrow> (addr \<Rightarrow> mem \<Rightarrow> mem) \<Rightarrow> bool" where
  "xsave_confined td r save \<longleftrightarrow>
     (\<forall>m x. x \<notin> window (xsave_area td r) (unat (xsave_size td)) \<longrightarrow> save (xsave_area td r) m x = m x)"

lemma ocall_geometry:
  assumes "ocall_room td r"
  defines "xs \<equiv> xsave_area td r" and "f \<equiv> xsave_area td r - 160" and "bp \<equiv> rsp r - 8"
  shows "xs = f + 160" "unat bp + 8 = unat (rsp r)" "unat xs + unat (xsave_size td) \<le> unat bp" "unat f + 160 = unat xs"
    "f \<noteq> 0"
proof -
  have bp: "unat bp + 8 = unat (rsp r)"
    using assms(1) by (simp add: bp_def ocall_room_def unat_sub word_le_nat_alt)
  have d: "unat (bp - xsave_size td) = unat bp - unat (xsave_size td)"
    using assms(1) bp by (simp add: ocall_room_def unat_sub word_le_nat_alt)
  have x: "unat xs = unat (bp - xsave_size td) - unat (bp - xsave_size td) mod 64"
    using unat_and_not_mask [of "bp - xsave_size td" 6]
    by (simp add: xs_def xsave_area_def bp_def mask_eq_exp_minus_1)
  have "unat (bp - xsave_size td) mod 64 < 64" by simp
  then have lo: "440 \<le> unat xs" using x d bp assms(1) unfolding ocall_room_def by linarith
  show "xs = f + 160" by (simp add: f_def xs_def)
  show "unat bp + 8 = unat (rsp r)" by (rule bp)
  have "unat xs \<le> unat bp - unat (xsave_size td)" using x d by simp
  then show "unat xs + unat (xsave_size td) \<le> unat bp" using assms(1) bp unfolding ocall_room_def by linarith
  show f: "unat f + 160 = unat xs" using lo by (simp add: f_def xs_def unat_sub word_le_nat_alt)
  show "f \<noteq> 0" using lo f by auto
qed

lemma do_ocall_result:
  assumes room: "ocall_room td r"
    and law: "xsave_confined td r save"
    and depth: "last_sp td \<noteq> stack_base_addr td \<longrightarrow> unat (last_sp td) + 152 \<le> 2 ^ 64"
  defines "f \<equiv> xsave_area td r - 160" and "bp \<equiv> rsp r - 8"
  obtains m' where
    "do_ocall save syn td r m = (td\<lparr>last_sp := f\<rparr>, m',
       eexit_regs (load64 m' (last_sp td - 8)) (rdi r) (rsi r) (load64 m' (first_ssa_gpr td + 152)) (load64 m' (first_ssa_gpr td + 144)))"
    "\<forall>x. unat x < unat f \<or> unat bp + 32 \<le> unat x \<longrightarrow> m' x = m x"
    "load64 m' (f + 152) = f + 160" "load64 m' (f + 112) = rbx r" "load64 m' (f + 104) = rsi r"
    "load64 m' (f + 96) = rdi r" "load64 m' (f + 88) = bp" "load64 m' (f + 80) = r12 r" "load64 m' (f + 72) = r13 r"
    "load64 m' (f + 64) = r14 r" "load64 m' (f + 56) = r15 r" "load64 m' (f + 32) = OCALL_FLAG"
    "load64 m' (f + 40) = rdi r" "load64 m' (f + 48) = last_sp td"
    "load64 m' (f + 144) = (if last_sp td = stack_base_addr td then 1 else load64 m (last_sp td + 144) + 1)"
    "load64 m' bp = rbp r" "load64 m' (bp + 8) = load64 m (bp + 8)"
proof -
  define n where "n = push_bit 2 (drop_bit 2 (xsave_size td))"
  define m1 where "m1 = write_slots m bp [(0, rbp r), (16, rdi r), (24, rsi r)]"
  define m2 where "m2 = write_slots m1 f [(152, f + 160), (112, rbx r), (104, rsi r), (96, rdi r), (88, bp),
    (80, r12 r), (72, r13 r), (64, r14 r), (56, r15 r)]"
  define m3 where "m3 = store64 (mem_fill m2 (f + 160) n 0) f (f + 160)"
  define m4 where "m4 = store64 (save (f + 160) m3) f syn"
  define m6 where "m6 = write_slots m4 f [(32, OCALL_FLAG), (40, load64 m4 (f + 96))]"
  define m7 where "m7 = store64 m6 (f + 48) (last_sp td)"
  define dep where "dep = (if last_sp td = stack_base_addr td then 1 else load64 m7 (last_sp td + 144) + 1)"
  define m' where "m' = store64 m7 (f + 144) dep"
  note geo = ocall_geometry [OF room, folded f_def bp_def]
  have xs: "xsave_area td r = f + 160" by (rule geo(1))
  have top: "unat (rsp r) + 0x100 \<le> unat (last_sp td)" using room by (simp add: ocall_room_def)
  have nle: "unat n \<le> unat (xsave_size td)" unfolding n_def by (rule push_drop_bit_le)
  have fc: "unat (f + c) = unat f + unat c" if "unat c \<le> 160" for c
    using geo top that unat_u64 [of "last_sp td"] by (intro unat_plus_small) linarith
  have bc: "unat (bp + c) = unat bp + unat c" if "unat c \<le> 32" for c
    using geo top that unat_u64 [of "last_sp td"] by (intro unat_plus_small) linarith
  have top_xs: "unat (f + 160) + unat (xsave_size td) \<le> 2 ^ 64"
    using geo(2,3) top unat_u64 [of "last_sp td"] unfolding xs by linarith
  have below: "apart (f + c) 8 (f + 160) k" if "unat c \<le> 152" "k \<le> unat (xsave_size td)" for c k
  proof (rule apart_below)
    show "unat (f + c) + 8 \<le> unat (f + 160)" using that(1) fc [of c] fc [of 160] by simp
    show "unat (f + 160) + k \<le> 2 ^ 64" using that(2) top_xs by linarith
  qed
  have fill: "load64 (mem_fill M (f + 160) n 0) (f + c) = load64 M (f + c)" if "unat c \<le> 152" for M c
    by (rule load_fill_other) (rule below [OF that nle])
  have sv: "load64 (save (f + 160) M) (f + c) = load64 M (f + c)" if "unat c \<le> 152" for M c
  proof (rule load_window)
    fix x
    assume x: "x \<in> window (f + c) 8"
    from windows_disjoint_apart [OF below [OF that order_refl]] x have "x \<notin> window (f + 160) (unat (xsave_size td))" by blast
    then show "save (f + 160) M x = M x" using law xs by (simp add: xsave_confined_def)
  qed
  have slots: "load64 m' (f + 152) = f + 160" "load64 m' (f + 112) = rbx r" "load64 m' (f + 104) = rsi r"
    "load64 m' (f + 96) = rdi r" "load64 m' (f + 88) = bp" "load64 m' (f + 80) = r12 r" "load64 m' (f + 72) = r13 r"
    "load64 m' (f + 64) = r14 r" "load64 m' (f + 56) = r15 r" "load64 m' (f + 32) = OCALL_FLAG"
    "load64 m' (f + 40) = rdi r" "load64 m' (f + 48) = last_sp td" "load64 m' (f + 144) = dep"
    by (simp_all add: m'_def m7_def m6_def m4_def m3_def m2_def mem_simps fill sv)
  have up: "load64 m' a = load64 m1 a" if a: "unat bp \<le> unat a" "unat a + 8 \<le> 2 ^ 64" for a
  proof -
    have ap: "apart a 8 (f + c) 8" if "unat c \<le> 152" for c
    proof (rule apart_above [OF _ a(2)])
      show "unat (f + c) + 8 \<le> unat a" using fc [of c] that geo(3,4) a(1) unfolding xs by linarith
    qed
    have ap': "apart a 8 (f + 160) k" if "k \<le> unat (xsave_size td)" for k
    proof (rule apart_above [OF _ a(2)])
      show "unat (f + 160) + k \<le> unat a" using that geo(3) a(1) unfolding xs by linarith
    qed
    have sv': "load64 (save (f + 160) M) a = load64 M a" for M
      by (rule load_window) (use law xs windows_disjoint_apart [OF ap' [OF order_refl]] in \<open>auto simp: xsave_confined_def\<close>)
    have "load64 m' a = load64 m6 a"
      unfolding m'_def m7_def by (simp add: load_store_other ap)
    also have "\<dots> = load64 m4 a" unfolding m6_def by (rule load_write_slots_other) (auto intro!: ap)
    also have "\<dots> = load64 m2 a"
      unfolding m4_def m3_def using ap [of 0] by (simp add: load_store_other sv' load_fill_other ap' [OF nle])
    also have "\<dots> = load64 m1 a" unfolding m2_def by (rule load_write_slots_other) (auto intro!: ap)
    finally show ?thesis .
  qed
  have bp: "load64 m' bp = rbp r" "load64 m' (bp + 8) = load64 m (bp + 8)"
  proof -
    have b8: "unat (bp + 8) = unat bp + 8" using bc [of 8] by simp
    have "unat bp + 16 \<le> 2 ^ 64" using geo(2) top unat_u64 [of "last_sp td"] by linarith
    then show "load64 m' bp = rbp r" "load64 m' (bp + 8) = load64 m (bp + 8)"
      using b8 by (simp_all add: up m1_def mem_simps)
  qed
  have out: "m' x = m x" if x: "unat x < unat f \<or> unat bp + 32 \<le> unat x" for x
  proof -
    have wf: "x \<notin> window (f + c) 8" if "unat c \<le> 152" for c
      using window_nat [of "f + c" 8 x] fc [of c] that x geo top unat_u64 [of "last_sp td"] unfolding xs by auto
    have wb: "x \<notin> window (bp + c) 8" if "unat c \<le> 24" for c
      using window_nat [of "bp + c" 8 x] bc [of c] that x geo top unat_u64 [of "last_sp td"] unfolding xs by auto
    have wx: "x \<notin> window (f + 160) (unat (xsave_size td))"
      using window_nat [OF top_xs, of x] x geo unfolding xs by auto
    have fl: "mem_fill M (f + 160) n 0 x = M x" for M
      using wx nle by (auto simp: mem_fill_def window_def word_less_nat_alt)
    have "m' x = m6 x" unfolding m'_def m7_def by (simp add: store_outside wf)
    also have "\<dots> = m4 x" unfolding m6_def by (rule write_slots_outside) (auto simp: wf)
    also have "\<dots> = m2 x"
      unfolding m4_def m3_def using wf [of 0] law [unfolded xsave_confined_def xs] wx by (simp add: store_outside fl)
    also have "\<dots> = m1 x" unfolding m2_def by (rule write_slots_outside) (auto simp: wf)
    also have "\<dots> = m x" unfolding m1_def by (rule write_slots_outside) (use wb [of 0] wb [of 16] wb [of 24] in auto)
    finally show ?thesis .
  qed
  have "load64 m7 (last_sp td + 144) = load64 m (last_sp td + 144)" if "last_sp td \<noteq> stack_base_addr td"
  proof -
    have u: "unat (last_sp td + 144) = unat (last_sp td) + 144"
      using mp [OF depth that] unat_plus_small [of "last_sp td" 144] by simp
    have "load64 m7 (last_sp td + 144) = load64 m' (last_sp td + 144)"
      unfolding m'_def
      by (rule load_store_other [symmetric], rule apart_above)
        (use u mp [OF depth that] fc [of 144] geo(2-4) top in \<open>simp_all add: xs [symmetric]\<close>)
    also have "\<dots> = load64 m (last_sp td + 144)"
      by (rule load_above [of "last_sp td"]) (use out geo(2) top u mp [OF depth that] in auto)
    finally show ?thesis .
  qed
  then have dep: "dep = (if last_sp td = stack_base_addr td then 1 else load64 m (last_sp td + 144) + 1)"
    by (simp add: dep_def)
  have pre: "load64 m7 (f + 48) = last_sp td" unfolding m7_def by (simp add: mem_simps)
  have "do_ocall save syn td r m = (td\<lparr>last_sp := f\<rparr>, m',
       eexit_regs (load64 m' (last_sp td - 8)) (rdi r) (rsi r) (load64 m' (first_ssa_gpr td + 152)) (load64 m' (first_ssa_gpr td + 144)))"

    by (simp only: do_ocall_def update_ocall_lastsp_def Let_def xs f_def [symmetric] bp_def [symmetric] n_def [symmetric]
        m1_def [symmetric] m2_def [symmetric] m3_def [symmetric] m4_def [symmetric] m6_def [symmetric] m7_def [symmetric]
        dep_def [symmetric] m'_def [symmetric] prod.case thread_data.simps add_diff_cancel_right' slots(3,4) pre) simp
  from that [OF this _ slots(1-12) slots(13) [unfolded dep] bp] out show ?thesis by blast
qed

lemma ocall_frames_base: "ocall_frames m base p fs \<Longrightarrow> unat p \<le> unat base"
  by (cases fs) auto

lemma ocall_frames_depth:
  "ocall_frames m base p fs \<Longrightarrow> p \<noteq> base \<Longrightarrow> unat p + 152 \<le> 2 ^ 64 \<and> ctx_ocall_depth m p = word_of_nat (length fs)"
  using unat_u64 [of base] by (cases fs) auto

text \<open>
  C26. An OCALL pushes one frame on the stack of pending OCALLs: with room on the trusted stack, \<^verbatim>\<open>do_ocall\<close>
  builds below the old stack pointer a frame that carries the marker, the index, the link to the
  previous frame and the nesting depth, makes it the thread's last stack pointer, changes no byte at or
  above the old one, and leaves the enclave at the return address of the enclosing ECALL with every
  register but the index, the argument and the untrusted stack cleared.
\<close>
theorem do_ocall_pushes_frame:
  assumes room: "ocall_room td r"
    and law: "xsave_confined td r save"
    and frames: "ocall_frames m (stack_base_addr td) (last_sp td) fs"
    and call: "do_ocall save syn td r m = (td', m', out)"
  shows "ocall_frames m' (stack_base_addr td') (last_sp td') (last_sp td' # fs)
    \<and> ctx_ocall_index m' (last_sp td') = rdi r
    \<and> unat (last_sp td') + 168 \<le> unat (rsp r) \<and> td'\<lparr>last_sp := last_sp td\<rparr> = td
    \<and> (\<forall>x. unat (last_sp td) \<le> unat x \<longrightarrow> m' x = m x)
    \<and> out = \<lparr>rax = 4, rbx = load64 m (last_sp td - 8), rcx = 0, rdx = 0, rsi = rsi r, rdi = rdi r,
        rbp = load64 m' (first_ssa_gpr td + 152), rsp = load64 m' (first_ssa_gpr td + 144),
        r8 = 0, r9 = 0, r10 = 0, r11 = 0, r12 = 0, r13 = 0, r14 = 0, r15 = 0\<rparr>"
proof -
  define f bp where "f = xsave_area td r - 160" and "bp = rsp r - 8"
  note geo = ocall_geometry [OF room, folded f_def bp_def]
  have top: "unat (rsp r) + 0x100 \<le> unat (last_sp td)" using room by (simp add: ocall_room_def)
  have dep: "last_sp td \<noteq> stack_base_addr td \<longrightarrow> unat (last_sp td) + 152 \<le> 2 ^ 64"
    using ocall_frames_depth [OF frames] by simp
  obtain m1 where m1: "do_ocall save syn td r m = (td\<lparr>last_sp := f\<rparr>, m1,
       eexit_regs (load64 m1 (last_sp td - 8)) (rdi r) (rsi r) (load64 m1 (first_ssa_gpr td + 152)) (load64 m1 (first_ssa_gpr td + 144)))"
    and out: "\<forall>x. unat x < unat f \<or> unat bp + 32 \<le> unat x \<longrightarrow> m1 x = m x"
    and slots: "load64 m1 (f + 32) = OCALL_FLAG" "load64 m1 (f + 40) = rdi r" "load64 m1 (f + 48) = last_sp td"
      "load64 m1 (f + 144) = (if last_sp td = stack_base_addr td then 1 else load64 m (last_sp td + 144) + 1)"
    by (rule do_ocall_result [where syn = syn and m = m, OF room law dep, folded f_def bp_def])
      (rule that, assumption+)
  from m1 call have td': "td' = td\<lparr>last_sp := f\<rparr>" and m': "m' = m1" by simp_all
  have f: "unat f + 168 \<le> unat (rsp r)" "unat f + 240 \<le> unat (last_sp td)" using geo(2-4) top by linarith+
  have same: "m' x = m x" if "unat (last_sp td) \<le> unat x" for x
    using out [rule_format, of x] that geo(2) top unfolding m' by linarith
  have fr: "ocall_frames m' (stack_base_addr td) (last_sp td) fs"
    by (rule ocall_frames_above [OF frames same])
  have "load64 m1 (f + 144) = word_of_nat (Suc (length fs))"
  proof (cases "last_sp td = stack_base_addr td")
    case True
    with frames have "fs = []" by (cases fs) auto
    with True slots(4) show ?thesis by simp
  next
    case False
    with ocall_frames_depth [OF frames False] slots(4) show ?thesis by simp
  qed
  with slots geo(5) f(2) fr ocall_frames_base [OF frames]
  have "ocall_frames m' (stack_base_addr td') (last_sp td') (last_sp td' # fs)"
    unfolding td' m' by (simp add: word_less_nat_alt word_le_nat_alt)
  moreover have "load64 m1 (last_sp td - 8) = load64 m (last_sp td - 8)"
  proof (rule load_above [of "last_sp td - 8"])
    have u: "unat (last_sp td - 8) = unat (last_sp td) - 8" using top by (simp add: unat_sub word_le_nat_alt)
    then show "unat (last_sp td - 8) + 8 \<le> 2 ^ 64" using unat_u64 [of "last_sp td"] top by linarith
    fix x :: addr
    assume "unat (last_sp td - 8) \<le> unat x"
    with u geo(2) top show "m1 x = m x" by (intro out [rule_format]) linarith
  qed simp
  ultimately show ?thesis
    using m1 call slots(2) same f(1) unfolding td' m' by (simp add: eexit_regs_def)
qed

lemma demo_ocall:
  "ocall_room demo_thread demo_regs" "xsave_confined demo_thread demo_regs (\<lambda>_ m. m)"
  "ocall_frames demo_memory (stack_base_addr demo_thread) (last_sp demo_thread) []"
  by (simp_all add: ocall_room_def xsave_confined_def demo_thread_def demo_regs_def demo_td_def)

theorem do_ocall_pushes_frame_witness:
  "\<exists>td' m' out. do_ocall (\<lambda>_ m. m) 0 demo_thread demo_regs demo_memory = (td', m', out) \<and>
     ocall_frames m' 0x10fd50 (last_sp td') [last_sp td'] \<and> ctx_ocall_index m' (last_sp td') = 5 \<and> r12 out = 0"
proof -
  obtain td' m' out where call: "do_ocall (\<lambda>_ m. m) 0 demo_thread demo_regs demo_memory = (td', m', out)"
    by (cases "do_ocall (\<lambda>_ m. m) 0 demo_thread demo_regs demo_memory") auto
  note r = do_ocall_pushes_frame [OF demo_ocall call]
  then have "td'\<lparr>last_sp := last_sp demo_thread\<rparr> = demo_thread" by blast
  then have "stack_base_addr td' = stack_base_addr demo_thread"
    by (metis thread_data.select_convs(3) thread_data.surjective thread_data.update_convs(2))
  then have b: "stack_base_addr td' = 0x10fd50" by (simp add: demo_thread_def)
  from r have "ocall_frames m' (stack_base_addr td') (last_sp td') [last_sp td']" "ctx_ocall_index m' (last_sp td') = rdi demo_regs"
    "r12 out = 0" by (blast, blast, simp)
  with call b show ?thesis by (intro exI [of _ td'] exI [of _ m'] exI [of _ out])
    (simp add: demo_regs_def del: ocall_frames.simps)
qed

text \<open>
  C25. An OCALL that returns leaves the trusted caller as if it had been an ordinary call: when only memory
  below the pending frame is used in between (nested ECALLs start from there), \<^verbatim>\<open>do_oret\<close> accepts the frame
  that \<^verbatim>\<open>do_ocall\<close> pushed and pops it, restoring the thread data, and \<^verbatim>\<open>asm_oret\<close> gives back all registers the
  caller relies on, returns to the caller's address with the stack as after a call, and passes on the
  result of the OCALL. The stack of \<^verbatim>\<open>asm_oret\<close> is at least 32 bytes below the frame: two words it saves, and the
  return address that its call of \<^verbatim>\<open>restore_xregs\<close> pushes below the frame.
\<close>
theorem ocall_oret_roundtrip:
  assumes room: "ocall_room td r" "8 \<le> unat (xsave_size td)"
    and law: "xsave_confined td r save"
    and frames: "ocall_frames m (stack_base_addr td) (last_sp td) fs"
    and call: "do_ocall save syn td r m = (td', m', out)"
    and keep: "\<And>x. unat (last_sp td') \<le> unat x \<Longrightarrow> m2 x = m' x"
    and ret: "local < last_sp td'" "unat (rsp r2) + 32 \<le> unat (last_sp td')" "rdi r2 = last_sp td'"
    and oret: "asm_oret ra r2 m2 = (r3, ip, m3)"
  shows "do_oret td' m2 local = Some (last_sp td', td)
    \<and> rbx r3 = rbx r \<and> rbp r3 = rbp r \<and> r12 r3 = r12 r \<and> r13 r3 = r13 r \<and> r14 r3 = r14 r \<and> r15 r3 = r15 r
    \<and> rsp r3 = rsp r + 8 \<and> ip = load64 m (rsp r) \<and> rax r3 = rsi r2"
proof -
  define f bp where "f = xsave_area td r - 160" and "bp = rsp r - 8"
  note geo = ocall_geometry [OF room(1), folded f_def bp_def]
  have top: "unat (rsp r) + 0x100 \<le> unat (last_sp td)" using room by (simp add: ocall_room_def)
  have dep: "last_sp td \<noteq> stack_base_addr td \<longrightarrow> unat (last_sp td) + 152 \<le> 2 ^ 64"
    using ocall_frames_depth [OF frames] by simp
  obtain m1 o1 where m1: "do_ocall save syn td r m = (td\<lparr>last_sp := f\<rparr>, m1, o1)"
    and slots: "load64 m1 (f + 152) = f + 160" "load64 m1 (f + 112) = rbx r" "load64 m1 (f + 88) = bp"
      "load64 m1 (f + 80) = r12 r" "load64 m1 (f + 72) = r13 r"
      "load64 m1 (f + 64) = r14 r" "load64 m1 (f + 56) = r15 r" "load64 m1 (f + 32) = OCALL_FLAG"
      "load64 m1 (f + 48) = last_sp td" "load64 m1 bp = rbp r" "load64 m1 (bp + 8) = load64 m (bp + 8)"
    by (rule do_ocall_result [where syn = syn and m = m, OF room(1) law dep, folded f_def bp_def])
      (rule that, assumption+)
  from m1 call have td': "td' = td\<lparr>last_sp := f\<rparr>" and m': "m' = m1" by simp_all
  have fc: "unat (f + c) = unat f + unat c" if "unat c \<le> 160" for c
    using geo top that unat_u64 [of "last_sp td"] by (intro unat_plus_small) linarith
  have lim: "unat bp + 16 \<le> 2 ^ 64" using geo(2) top unat_u64 [of "last_sp td"] by linarith
  have b8: "unat (bp + 8) = unat bp + 8" using lim unat_plus_small [of bp 8] by simp
  have k: "load64 m2 a = load64 m1 a" if "unat f \<le> unat a" "unat a + 8 \<le> 2 ^ 64" for a
    by (rule load_above [of f]) (use keep that in \<open>auto simp: td' m'\<close>)
  have kf: "load64 m2 (f + c) = load64 m1 (f + c)" if "unat c \<le> 152" for c
    using fc [of c] that geo(3,4) lim by (intro k) auto
  have kb: "load64 m2 bp = load64 m1 bp" "load64 m2 (bp + 8) = load64 m1 (bp + 8)"
    using geo(3,4) lim b8 by (auto intro!: k)
  have oret1: "do_oret td' m2 local = Some (last_sp td', td)"
  proof -
    have base: "unat f + 240 \<le> unat (stack_base_addr td)"
      using ocall_frames_base [OF frames] geo(2-4) top by linarith
    then have "\<not> f > stack_base_addr td - 240"
      by (simp add: word_less_nat_alt unat_sub word_le_nat_alt)
    moreover have "f < last_sp td" using geo(2-4) top by (simp add: word_less_nat_alt)
    moreover have "last_sp td \<le> stack_base_addr td"
      using ocall_frames_base [OF frames] by (simp add: word_le_nat_alt)
    ultimately show ?thesis
      using ret(1) geo(5) kf [of 32] kf [of 48] slots(8,9) unfolding td' by (simp add: do_oret_def Let_def not_le)
  qed
  define b where "b = rsp r2"
  define n where "n = push_bit 2 (drop_bit 2 (bp - (f + 160) - 8))"
  define w0 w where "w0 = write_slots m2 b [(8, f), (16, rsi r2)]" and "w = store64 w0 (f - 8) ra"
  have ub: "unat b + 32 \<le> unat f" using ret(2) by (simp add: b_def td')
  have bcn: "unat (b + c) = unat b + unat c" if "unat c \<le> 16" for c
    using ub that unat_u64 [of f] by (intro unat_plus_small) linarith
  have f8: "unat (f - 8) = unat f - 8" using ub by (simp add: unat_sub word_le_nat_alt)
  have ww: "load64 w a = load64 w0 a" if "unat f \<le> unat a" "unat a + 8 \<le> 2 ^ 64" for a
    unfolding w_def by (rule load_store_other, rule apart_above) (use that ub f8 in auto)
  have w0a: "load64 w0 a = load64 m2 a" if "unat f \<le> unat a" "unat a + 8 \<le> 2 ^ 64" for a
    unfolding w0_def
    by (rule load_write_slots_other, rule apart_above) (use that ub bcn [of 8] bcn [of 16] in auto)
  have wa: "load64 w a = load64 m2 a" if "unat f \<le> unat a" "unat a + 8 \<le> 2 ^ 64" for a
    using ww [OF that] w0a [OF that] by simp
  have nn: "unat (f + 160) + unat n + 8 \<le> unat bp"
  proof -
    have d: "unat (bp - (f + 160)) = unat bp - unat (f + 160)"
      using geo(1,3) by (simp add: unat_sub word_le_nat_alt)
    then have "8 \<le> bp - (f + 160)" using geo(1,3) room(2) by (simp add: word_le_nat_alt)
    from unat_sub [OF this] have "unat (bp - (f + 160) - 8) = unat bp - unat (f + 160) - 8"
      unfolding d by simp
    then have "unat n \<le> unat bp - unat (f + 160) - 8" unfolding n_def using push_drop_bit_le by metis
    then show ?thesis using geo(1,3) room(2) by simp
  qed
  define z where "z = mem_fill w (f + 160) n 0"
  have zf: "load64 z (f + c) = load64 m1 (f + c)" if "unat c \<le> 152" for c
  proof -
    have "load64 z (f + c) = load64 w (f + c)"
      unfolding z_def by (rule load_fill_other, rule apart_below) (use that fc [of c] fc [of 160] nn lim in auto)
    also have "\<dots> = load64 m2 (f + c)" by (rule wa) (use that fc [of c] geo(3,4) lim in auto)
    also have "\<dots> = load64 m1 (f + c)" by (rule kf [OF that])
    finally show ?thesis .
  qed
  have zb: "load64 z a = load64 m1 a" if "a = bp \<or> a = bp + 8" for a
  proof -
    have ua: "unat bp \<le> unat a" "unat a + 8 \<le> 2 ^ 64" using that lim b8 by auto
    have "load64 z a = load64 w a"
      unfolding z_def by (rule load_fill_other, rule apart_above) (use ua nn in auto)
    also have "\<dots> = load64 m2 a" by (rule wa) (use ua geo(3,4) in auto)
    also have "\<dots> = load64 m1 a" using that kb by auto
    finally show ?thesis .
  qed
  have zs: "load64 z (b + 16) = rsi r2"
  proof -
    have "load64 z (b + 16) = load64 w (b + 16)"
      unfolding z_def by (rule load_fill_other, rule apart_below) (use bcn [of 16] ub fc [of 160] nn lim in auto)
    also have "load64 w (b + 16) = load64 w0 (b + 16)"
      unfolding w_def by (rule load_store_other, rule apart_below) (use bcn [of 16] ub f8 unat_u64 [of f] in auto)
    finally show ?thesis by (simp add: w0_def mem_simps)
  qed
  have w8: "load64 w0 (b + 8) = f" by (simp add: w0_def mem_simps)
  have w152: "load64 w0 (f + 152) = f + 160" "load64 w (f + 88) = bp"
    using w0a [of "f + 152"] wa [of "f + 152"] wa [of "f + 88"] kf [of 152] kf [of 88] slots(1,3) fc [of 152] fc [of 88] geo(3,4) lim by auto
  have di: "rdi r2 = f" using ret(3) by (simp add: td')
  have "asm_oret ra r2 m2 = (r2\<lparr>rax := load64 z (b + 16), rcx := 0, r15 := load64 z (f + 56), r14 := load64 z (f + 64),
      r13 := load64 z (f + 72), r12 := load64 z (f + 80), rdi := load64 z (f + 96), rsi := load64 z (f + 104),
      rbx := load64 z (f + 112), rbp := load64 z (load64 z (f + 88)), rsp := load64 z (f + 88) + 16\<rparr>,
      load64 z (load64 z (f + 88) + 8), z)"
    by (simp only: asm_oret_def Let_def b_def [symmetric] di w0_def [symmetric] w8 w_def [symmetric] w152 n_def [symmetric] z_def [symmetric])
  then have r3: "r3 = r2\<lparr>rax := load64 z (b + 16), rcx := 0, r15 := load64 z (f + 56), r14 := load64 z (f + 64),
      r13 := load64 z (f + 72), r12 := load64 z (f + 80), rdi := load64 z (f + 96), rsi := load64 z (f + 104),
      rbx := load64 z (f + 112), rbp := load64 z bp, rsp := bp + 16\<rparr>" and ip: "ip = load64 z (bp + 8)"
    using oret zf [of 88] slots(3) by simp_all
  have "bp + 8 = rsp r" by (simp add: bp_def)
  with ip zb [of "bp + 8"] slots(11) have "ip = load64 m (rsp r)" by simp
  moreover have "rsp r3 = rsp r + 8" by (simp add: r3 bp_def)
  ultimately show ?thesis using oret1 r3 zf slots zb [of bp] zs by simp
qed

theorem ocall_oret_roundtrip_witness:
  "\<exists>td' m' out r3 ip m3. do_ocall (\<lambda>_ m. m) 0 demo_thread demo_regs demo_memory = (td', m', out) \<and>
     do_oret td' m' 0x10e000 = Some (last_sp td', demo_thread) \<and>
     asm_oret 0x101300 (demo_regs\<lparr>rsp := 0x10e000, rdi := last_sp td', rsi := 0\<rparr>) m' = (r3, ip, m3) \<and>
     rbx r3 = 0x120000 \<and> r15 r3 = 15 \<and> rsp r3 = 0x10f008 \<and> rax r3 = 0"
proof -
  have dep: "last_sp demo_thread \<noteq> stack_base_addr demo_thread \<longrightarrow> unat (last_sp demo_thread) + 152 \<le> 2 ^ 64"
    by (simp add: demo_thread_def)
  obtain m' out where call: "do_ocall (\<lambda>_ m. m) 0 demo_thread demo_regs demo_memory =
      (demo_thread\<lparr>last_sp := xsave_area demo_thread demo_regs - 160\<rparr>, m', out)"
    by (rule do_ocall_result [OF demo_ocall(1,2) dep])
  have f: "xsave_area demo_thread demo_regs - 160 = 0x10ebe0"
    by (simp add: xsave_area_def demo_thread_def demo_regs_def demo_td_def)
  define r2 where "r2 = demo_regs\<lparr>rsp := 0x10e000, rdi := 0x10ebe0, rsi := 0\<rparr>"
  obtain r3 ip m3 where oret: "asm_oret 0x101300 r2 m' = (r3, ip, m3)" by (cases "asm_oret 0x101300 r2 m'") auto
  have "do_oret (demo_thread\<lparr>last_sp := 0x10ebe0\<rparr>) m' 0x10e000 = Some (0x10ebe0, demo_thread) \<and>
      rbx r3 = rbx demo_regs \<and> r15 r3 = r15 demo_regs \<and> rsp r3 = rsp demo_regs + 8 \<and> rax r3 = 0"
  proof -
    have x: "8 \<le> unat (xsave_size demo_thread)" by (simp add: demo_thread_def demo_td_def)
    have l: "0x10e000 < last_sp (demo_thread\<lparr>last_sp := 0x10ebe0\<rparr>)"
      "unat (rsp r2) + 32 \<le> unat (last_sp (demo_thread\<lparr>last_sp := 0x10ebe0\<rparr>))"
      "rdi r2 = last_sp (demo_thread\<lparr>last_sp := 0x10ebe0\<rparr>)" by (simp_all add: r2_def)
    show ?thesis
      using ocall_oret_roundtrip [OF demo_ocall(1) x demo_ocall(2,3) call [unfolded f] refl l oret] by (simp add: r2_def)
  qed
  with call oret show ?thesis unfolding f r2_def
    by (intro exI [of _ "demo_thread\<lparr>last_sp := 0x10ebe0\<rparr>"] exI [of _ m'] exI [of _ out] exI [of _ r3] exI [of _ ip] exI [of _ m3])
      (simp add: demo_regs_def)
qed

end
