(* ===== verification/Trts_Protect.thy ===== *)
theory Trts_Protect
  imports Trts_Elf Trts_Range
begin

text \<open>
  Page permissions: the OCALLs of dynamic memory management (\<^verbatim>\<open>sdk/trts/trts_trim.cpp\<close>,
  \<^verbatim>\<open>sdk/trts/trts_emodpr.cpp\<close>), \<^verbatim>\<open>trts_mprotect\<close> (\<^verbatim>\<open>sdk/trts/trts_ecall.cpp\<close>) and the permissions restored
  after the image is relocated (\<^verbatim>\<open>change_protection\<close> in \<^verbatim>\<open>sdk/trts/linux/elf_parser.c\<close>). The instructions
  issued are recorded in order.
\<close>

section \<open>OCALLs of dynamic memory management\<close>

text \<open>
  An OCALL with a marshalling structure on the untrusted stack: \<^verbatim>\<open>sgx_ocalloc\<close>, the call, \<^verbatim>\<open>sgx_ocfree\<close>.
  \<open>sp_u\<close> is the untrusted stack pointer in the SSA, \<open>usp\<close> the one the ECALL frame saved, and \<open>ocall i fields\<close>
  the status of \<^verbatim>\<open>sgx_ocall\<close> with index \<open>i\<close> and a structure with these fields.
\<close>

definition edmm_ocall :: "enclave_range \<Rightarrow> u64 \<Rightarrow> u64 \<Rightarrow> u64 \<Rightarrow> sgx_status \<Rightarrow> sgx_status exec option" where
  "edmm_ocall e sp_u usp sz status =
     (case sgx_ocalloc e sp_u sz of
        None \<Rightarrow> None
      | Some (Inl f) \<Rightarrow> Some (Inl f)
      | Some (Inr (tmp, _, _)) \<Rightarrow>
          (case sgx_ocfree e (\<lambda>_. usp) 0 of
             Inl f \<Rightarrow> Some (Inl f)
           | Inr _ \<Rightarrow> Some (Inr (if tmp = NULL then SGX_ERROR_UNEXPECTED else status))))"

type_synonym ocall = "int \<Rightarrow> u64 list \<Rightarrow> sgx_status"

abbreviation (input) EDMM_TRIM :: int where "EDMM_TRIM \<equiv> -2"
abbreviation (input) EDMM_TRIM_COMMIT :: int where "EDMM_TRIM_COMMIT \<equiv> -3"
abbreviation (input) EDMM_MODPR :: int where "EDMM_MODPR \<equiv> -4"
abbreviation (input) EDMM_MPROTECT :: int where "EDMM_MPROTECT \<equiv> -5"

definition trim_range_ocall :: "enclave_range \<Rightarrow> u64 \<Rightarrow> u64 \<Rightarrow> ocall \<Rightarrow> u64 \<Rightarrow> u64 \<Rightarrow> sgx_status exec option" where
  "trim_range_ocall e sp_u usp ocall fromaddr toaddr =
     edmm_ocall e sp_u usp 16 (ocall EDMM_TRIM [fromaddr, toaddr])"

definition trim_range_commit_ocall :: "enclave_range \<Rightarrow> u64 \<Rightarrow> u64 \<Rightarrow> ocall \<Rightarrow> u64 \<Rightarrow> sgx_status exec option" where
  "trim_range_commit_ocall e sp_u usp ocall addr = edmm_ocall e sp_u usp 8 (ocall EDMM_TRIM_COMMIT [addr])"

definition change_permissions_ocall ::
  "enclave_range \<Rightarrow> u64 \<Rightarrow> u64 \<Rightarrow> ocall \<Rightarrow> u64 \<Rightarrow> u64 \<Rightarrow> u64 \<Rightarrow> int \<Rightarrow> sgx_status exec option" where
  "change_permissions_ocall e sp_u usp ocall addr sz epcm_perms proc =
     edmm_ocall e sp_u usp 24 (ocall proc [addr, sz, epcm_perms])"

section \<open>Changing page permissions\<close>

datatype page_event = Emodpe u64 addr | Eaccept u64 addr

text \<open>\<^verbatim>\<open>do_eaccept\<close> aborts unless the instruction succeeds.\<close>

definition do_eaccept :: "eaccept \<Rightarrow> u64 \<Rightarrow> addr \<Rightarrow> int exec" where
  "do_eaccept eaccept si_flags page = (if eaccept si_flags page = 0 then Inr 0 else Inl Abort)"

partial_function (option) mprotect_loop ::
  "eaccept \<Rightarrow> u64 \<Rightarrow> u64 \<Rightarrow> u64 \<Rightarrow> page_event list \<Rightarrow> page_event list exec option" where
  "mprotect_loop eaccept perms page stop acc =
     (if page < stop
      then let si = perms OR SI_FLAG_REG OR SI_FLAG_PR; acc = acc @ [Emodpe si page] in
           if perms AND (SI_FLAG_W OR SI_FLAG_X) \<noteq> SI_FLAG_W OR SI_FLAG_X
           then (case do_eaccept eaccept si page of
                   Inl f \<Rightarrow> Some (Inl f)
                 | Inr _ \<Rightarrow> mprotect_loop eaccept perms (page + SE_PAGE_SIZE) stop (acc @ [Eaccept si page]))
           else mprotect_loop eaccept perms (page + SE_PAGE_SIZE) stop acc
      else Some (Inr acc))"

abbreviation (input) SDK_VERSION_1_5 :: u32 where "SDK_VERSION_1_5 \<equiv> 0"
abbreviation (input) SDK_VERSION_2_0 :: u32 where "SDK_VERSION_2_0 \<equiv> 1"

text \<open>
  \<open>modpr\<close> is the result of \<^verbatim>\<open>change_permissions_ocall\<close> for \<^verbatim>\<open>EDMM_MODPR\<close>; the result lists the instructions
  issued on the pages.
\<close>

definition trts_mprotect ::
  "u32 \<Rightarrow> eaccept \<Rightarrow> (u64 \<Rightarrow> u64 \<Rightarrow> u64 \<Rightarrow> sgx_status exec option) \<Rightarrow> u64 \<Rightarrow> u64 \<Rightarrow> u64 \<Rightarrow>
   (sgx_status \<times> page_event list) exec option" where
  "trts_mprotect g_sdk_version eaccept modpr start sz perms =
     (if \<not> IS_PAGE_ALIGNED start \<or> sz = 0 \<or> \<not> IS_PAGE_ALIGNED sz then Some (Inr (SGX_ERROR_INVALID_PARAMETER, []))
      else case (if g_sdk_version = SDK_VERSION_2_0 then modpr start sz perms else Some (Inr SGX_SUCCESS)) of
             None \<Rightarrow> None
           | Some (Inl f) \<Rightarrow> Some (Inl f)
           | Some (Inr ret) \<Rightarrow>
               if ret \<noteq> SGX_SUCCESS then Some (Inr (ret, []))
               else map_option (map_sum id (Pair SGX_SUCCESS)) (mprotect_loop eaccept perms start (start + sz) []))"

section \<open>Permissions after relocation\<close>

definition has_text_relo :: "mem \<Rightarrow> addr \<Rightarrow> addr \<Rightarrow> nat \<Rightarrow> bool" where
  "has_text_relo m ehdr phdr phnum =
     (case find_phdr m phdr PT_DYNAMIC phnum of
        None \<Rightarrow> False
      | Some p \<Rightarrow> DT_TEXTREL \<in> set (map fst (takeWhile (\<lambda>(tag, _). tag \<noteq> DT_NULL) (dyn_of m ehdr p))))"

definition segment_start :: "mem \<Rightarrow> addr \<Rightarrow> addr \<Rightarrow> u64" where
  "segment_start m enclave_base p = enclave_base + (p_vaddr m p AND NOT (SE_PAGE_SIZE - 1))"

definition segment_end :: "mem \<Rightarrow> addr \<Rightarrow> addr \<Rightarrow> u64" where
  "segment_end m enclave_base p =
     enclave_base + ((p_vaddr m p + p_memsz m p + SE_PAGE_SIZE - 1) AND NOT (SE_PAGE_SIZE - 1))"

definition segment_perms :: "mem \<Rightarrow> addr \<Rightarrow> u64" where
  "segment_perms m p =
     (if p_flags m p AND PF_R \<noteq> 0 then SI_FLAG_R else 0) OR (if p_flags m p AND PF_X \<noteq> 0 then SI_FLAG_X else 0)"

type_synonym mprotect = "u64 \<Rightarrow> u64 \<Rightarrow> u64 \<Rightarrow> (sgx_status \<times> page_event list) exec option"

text \<open>A call of \<^verbatim>\<open>trts_mprotect\<close> whose failure ends the function with its status.\<close>

definition then_mprotect ::
  "(sgx_status \<times> page_event list) exec option \<Rightarrow> (sgx_status \<times> page_event list) exec option \<Rightarrow>
   (sgx_status \<times> page_event list) exec option" where
  "then_mprotect r k =
     (case r of
        Some (Inr (SGX_SUCCESS, es)) \<Rightarrow>
          map_option (map_sum id (\<lambda>(st, es'). (st, es @ es'))) k
      | _ \<Rightarrow> r)"

fun protect_segments :: "mem \<Rightarrow> mprotect \<Rightarrow> addr \<Rightarrow> bool \<Rightarrow> addr \<Rightarrow> nat \<Rightarrow> (sgx_status \<times> page_event list) exec option" where
  "protect_segments m mprotect enclave_base text_relocation phdr 0 = Some (Inr (SGX_SUCCESS, []))"
| "protect_segments m mprotect enclave_base text_relocation phdr (Suc n) =
     (let start = segment_start m enclave_base phdr; stop = segment_end m enclave_base phdr in
      then_mprotect
        (if text_relocation \<and> p_type m phdr = PT_LOAD \<and> p_flags m phdr AND PF_W = 0
         then mprotect start (stop - start) (segment_perms m phdr) else Some (Inr (SGX_SUCCESS, [])))
        (then_mprotect
          (if p_type m phdr = PT_GNU_RELRO \<and> start \<noteq> stop
           then mprotect start (stop - start) SI_FLAG_R else Some (Inr (SGX_SUCCESS, [])))
          (protect_segments m mprotect enclave_base text_relocation (phdr + 56) n)))"

definition change_protection :: "global_data \<Rightarrow> mem \<Rightarrow> mprotect \<Rightarrow> addr \<Rightarrow> (sgx_status \<times> page_event list) exec option" where
  "change_protection g m mprotect enclave_base =
     (let phdr = get_phdr m enclave_base; n = unat (e_phnum m enclave_base) in
      if phdr = NULL then Some (Inr (SGX_ERROR_UNEXPECTED, []))
      else then_mprotect
        (protect_segments m mprotect enclave_base (has_text_relo m enclave_base phdr n) phdr n)
        (case find (\<lambda>l. l_id l = LAYOUT_ID_RSRV_MIN \<and> l_si_flags l = 0x207 \<and> l_page_count l > 0) (layout_table g) of
           None \<Rightarrow> Some (Inr (SGX_SUCCESS, []))
         | Some l \<Rightarrow> mprotect (enclave_base + l_rva l) (page_bytes (l_page_count l)) (SI_FLAG_R OR SI_FLAG_W)))"

section \<open>What trts\_mprotect does\<close>

definition protect_events :: "u64 \<Rightarrow> addr \<Rightarrow> page_event list" where
  "protect_events perms p =
     (let si = perms OR SI_FLAG_REG OR SI_FLAG_PR in
      Emodpe si p # (if perms AND (SI_FLAG_W OR SI_FLAG_X) \<noteq> SI_FLAG_W OR SI_FLAG_X then [Eaccept si p] else []))"

definition page_ok :: "eaccept \<Rightarrow> u64 \<Rightarrow> addr \<Rightarrow> bool" where
  "page_ok ea perms p \<longleftrightarrow>
     perms AND (SI_FLAG_W OR SI_FLAG_X) = SI_FLAG_W OR SI_FLAG_X \<or> ea (perms OR SI_FLAG_REG OR SI_FLAG_PR) p = 0"

lemma mprotect_loop_exact:
  assumes "unat lo + n * 4096 < 2 ^ 64"
  shows "mprotect_loop ea perms lo (lo + word_of_nat n * SE_PAGE_SIZE) acc =
    Some (if \<forall>p \<in> set (pages lo n). page_ok ea perms p
      then Inr (acc @ concat (map (protect_events perms) (pages lo n))) else Inl Abort)"
  using assms
proof (induction n arbitrary: lo acc)
  case 0
  show ?case by (subst mprotect_loop.simps) simp
next
  case (Suc n)
  have s: "unat (lo + SE_PAGE_SIZE) = unat lo + 4096"
    using unat_page_end [of lo 1] Suc.prems by simp
  have e: "lo + word_of_nat (Suc n) * SE_PAGE_SIZE = lo + SE_PAGE_SIZE + word_of_nat n * SE_PAGE_SIZE"
    by (simp add: algebra_simps)
  have lt: "lo < lo + word_of_nat (Suc n) * SE_PAGE_SIZE"
    using unat_page_end [OF Suc.prems] by (simp add: word_less_nat_alt del: of_nat_Suc)
  have "mprotect_loop ea perms lo (lo + word_of_nat (Suc n) * SE_PAGE_SIZE) acc =
    (if \<not> page_ok ea perms lo then Some (Inl Abort)
     else mprotect_loop ea perms (lo + SE_PAGE_SIZE) (lo + SE_PAGE_SIZE + word_of_nat n * SE_PAGE_SIZE)
       (acc @ protect_events perms lo))"
    using lt unfolding e
    by (subst mprotect_loop.simps) (auto simp: Let_def page_ok_def protect_events_def do_eaccept_def)
  with Suc.IH [of "lo + SE_PAGE_SIZE" "acc @ protect_events perms lo"] s Suc.prems show ?case
    by (simp add: pages_Suc)
qed

text \<open>
  C21. \<^verbatim>\<open>trts_mprotect\<close> rejects a range that is empty or not page aligned without touching a page, passes on a
  failure of the untrusted half of the change, and otherwise, for a range that does not wrap around,
  always returns: it extends the permissions of every page of the range once, in ascending order, and
  has the processor confirm the restriction right behind it unless the page becomes writable and
  executable; success means that every confirmation succeeded, and a refused one aborts the enclave.
\<close>
theorem trts_mprotect_exact:
  assumes "unat start + unat sz < 2 ^ 64"
  shows "trts_mprotect ver ea modpr start sz perms =
    (if unat start mod 4096 \<noteq> 0 \<or> unat sz mod 4096 \<noteq> 0 \<or> sz = 0 then Some (Inr (SGX_ERROR_INVALID_PARAMETER, []))
     else case (if ver = SDK_VERSION_2_0 then modpr start sz perms else Some (Inr SGX_SUCCESS)) of
        Some (Inr SGX_SUCCESS) \<Rightarrow>
          let ps = pages start (unat sz div 4096) in
          Some (if \<forall>p \<in> set ps. page_ok ea perms p
            then Inr (SGX_SUCCESS, concat (map (protect_events perms) ps)) else Inl Abort)
      | Some (Inr st) \<Rightarrow> Some (Inr (st, []))
      | Some (Inl f) \<Rightarrow> Some (Inl f)
      | None \<Rightarrow> None)"
proof (cases "unat start mod 4096 \<noteq> 0 \<or> unat sz mod 4096 \<noteq> 0 \<or> sz = 0")
  case True
  then show ?thesis by (auto simp: trts_mprotect_def IS_PAGE_ALIGNED_iff)
next
  case False
  define n where "n = unat sz div 4096"
  have "word_of_nat n * SE_PAGE_SIZE = sz" and w: "unat start + n * 4096 < 2 ^ 64"
  proof -
    have "n * 4096 = unat sz" using False by (simp add: n_def) (metis mod_0_imp_dvd dvd_div_mult_self)
    then show "unat start + n * 4096 < 2 ^ 64" using assms by simp
    have "word_of_nat n * SE_PAGE_SIZE = (word_of_nat (n * 4096) :: u64)" by simp
    also have "\<dots> = sz" unfolding \<open>n * 4096 = unat sz\<close> by (simp add: of_nat_unat)
    finally show "word_of_nat n * SE_PAGE_SIZE = sz" .
  qed
  then have "mprotect_loop ea perms start (start + sz) [] =
    Some (if \<forall>p \<in> set (pages start n). page_ok ea perms p
      then Inr (concat (map (protect_events perms) (pages start n))) else Inl Abort)"
    using mprotect_loop_exact [OF w, of ea perms "[]"] by simp
  with False show ?thesis
    by (auto simp: trts_mprotect_def IS_PAGE_ALIGNED_iff n_def [symmetric] Let_def
        split: option.split sum.split sgx_status.split)
qed

theorem trts_mprotect_exact_witness:
  "trts_mprotect SDK_VERSION_2_0 (\<lambda>_ _. 0) (\<lambda>_ _ _. Some (Inr SGX_SUCCESS)) 0x10000 0x2000 SI_FLAG_R =
   Some (Inr (SGX_SUCCESS, [Emodpe 0x221 0x10000, Eaccept 0x221 0x10000, Emodpe 0x221 0x11000, Eaccept 0x221 0x11000]))"
proof -
  have p: "pages 0x10000 2 = [0x10000, 0x11000]" by code_simp
  show ?thesis
    using trts_mprotect_exact [of "0x10000" "0x2000" SDK_VERSION_2_0 "\<lambda>_ _. 0" "\<lambda>_ _ _. Some (Inr SGX_SUCCESS)" SI_FLAG_R]
    by (simp add: p page_ok_def protect_events_def Let_def)
qed

end
