(* ===== verification/Spinlock.thy ===== *)
theory Spinlock
  imports Prelude "HOL-Library.Monad_Syntax"
begin

text \<open>
  The trusted spin lock (\<^verbatim>\<open>sdk/tlibc/gen/spinlock.c\<close>), on which every critical section of the thread
  library rests. First the interleaving semantics: each thread runs \<^verbatim>\<open>sgx_spin_lock\<close>, its critical
  section and \<^verbatim>\<open>sgx_spin_unlock\<close>, one memory access at a time, against the shared lock word; mutual
  exclusion holds in every reachable state. Then the view of one running thread: \<^verbatim>\<open>sgx_spin_lock\<close>
  returns exactly on a free word, which is how the critical sections of the other theories take it.
\<close>

definition InterlockedExchange :: "u32 \<Rightarrow> u32 \<Rightarrow> u32 \<times> u32" where
  "InterlockedExchange dst val = (dst, val)" \<comment> \<open>the value returned and the new content\<close>

datatype spin_pc = Outside | Exchanging | Spinning | Holding

text \<open>
  One access of a thread: \<^verbatim>\<open>Exchanging\<close> is the outer loop's exchange, \<^verbatim>\<open>Spinning\<close> the inner loop's read,
  \<^verbatim>\<open>Holding\<close> the critical section, left by the store of \<^verbatim>\<open>sgx_spin_unlock\<close>.
\<close>

definition sgx_spin_unlock :: "u32 \<Rightarrow> u32" where
  "sgx_spin_unlock lock = 0"

fun spin_next :: "u32 \<Rightarrow> spin_pc \<Rightarrow> u32 \<times> spin_pc" where
  "spin_next lock Outside = (lock, Exchanging)"
| "spin_next lock Exchanging =
     (let (old, lock) = InterlockedExchange lock 1 in
      if old \<noteq> 0 then (lock, Spinning) else (lock, Holding))"
| "spin_next lock Spinning = (if lock \<noteq> 0 then (lock, Spinning) else (lock, Exchanging))"
| "spin_next lock Holding = (sgx_spin_unlock lock, Outside)"

partial_function (option) spin_run :: "u32 \<Rightarrow> spin_pc \<Rightarrow> u32 option" where
  "spin_run lock pc =
     (if pc = Holding then Some lock
      else case spin_next lock pc of (lock, pc) \<Rightarrow> spin_run lock pc)"

definition sgx_spin_lock :: "u32 \<Rightarrow> u32 option" where
  "sgx_spin_lock lock = spin_run lock Exchanging"

section \<open>Interleaved threads\<close>

record 't spin_sys =
  lock_word :: u32
  pc_of :: "'t \<Rightarrow> spin_pc"

definition spin_init :: "'t spin_sys \<Rightarrow> bool" where
  "spin_init s \<longleftrightarrow> lock_word s = 0 \<and> (\<forall>t. pc_of s t = Outside)"

inductive spin_step :: "'t spin_sys \<Rightarrow> 't spin_sys \<Rightarrow> bool" where
  "spin_next (lock_word s) (pc_of s t) = (l, pc) \<Longrightarrow>
   spin_step s (s\<lparr>lock_word := l, pc_of := (pc_of s)(t := pc)\<rparr>)"

inductive_cases spin_stepE: "spin_step s s'"

definition spin_inv :: "'t spin_sys \<Rightarrow> bool" where
  "spin_inv s \<longleftrightarrow>
     (lock_word s = 0 \<longrightarrow> (\<forall>t. pc_of s t \<noteq> Holding)) \<and>
     (lock_word s \<noteq> 0 \<longrightarrow> (\<exists>!t. pc_of s t = Holding))"

lemma holder_upd: "pc_of s t \<noteq> Holding \<Longrightarrow> pc \<noteq> Holding \<Longrightarrow> ((pc_of s)(t := pc)) u = Holding \<longleftrightarrow> pc_of s u = Holding"
  by auto

lemma spin_inv_next:
  assumes "spin_inv s" and n: "spin_next (lock_word s) (pc_of s t) = (l, pc)"
  shows "spin_inv (s\<lparr>lock_word := l, pc_of := (pc_of s)(t := pc)\<rparr>)"
proof (cases "pc_of s t = Holding \<or> pc = Holding")
  case False
  then have "l = 0 \<longleftrightarrow> lock_word s = 0"
    using n by (cases "pc_of s t") (auto simp: InterlockedExchange_def split: if_splits)
  with False assms(1) show ?thesis
    by (simp add: spin_inv_def holder_upd del: fun_upd_apply)
next
  case True
  then consider "pc_of s t = Holding" | "pc_of s t = Exchanging" "lock_word s = 0"
    using n by (cases "pc_of s t") (auto simp: InterlockedExchange_def split: if_splits)
  then show ?thesis
  proof cases
    case 1
    then have "l = 0" "pc = Outside" using n by (auto simp: sgx_spin_unlock_def)
    moreover have "\<forall>u. u \<noteq> t \<longrightarrow> pc_of s u \<noteq> Holding"
      using assms(1) 1 unfolding spin_inv_def by blast
    ultimately show ?thesis by (simp add: spin_inv_def)
  next
    case 2
    then have "l = 1" "pc = Holding" using n by (auto simp: InterlockedExchange_def)
    with assms(1) 2 show ?thesis by (auto simp: spin_inv_def)
  qed
qed

interpretation spin: invariant_system spin_init spin_step spin_inv
proof unfold_locales
  show "spin_inv s" if "spin_init s" for s :: "'a spin_sys"
    using that by (simp add: spin_init_def spin_inv_def)
  show "spin_inv s'" if "spin_inv s" "spin_step s s'" for s s' :: "'a spin_sys"
    using that(2) by cases (simp only: spin_inv_next [OF that(1)])
qed

text \<open>
  C13. Any number of threads interleave their accesses to the lock word of \<^verbatim>\<open>sgx_spin_lock\<close> and
  \<^verbatim>\<open>sgx_spin_unlock\<close> in any order: in every reachable state at most one thread is inside its
  critical section, the lock word is zero exactly when none is, and a thread that performs its
  exchange on a zero word enters at once.
\<close>
theorem spin_lock_mutual_exclusion:
  assumes "reachable spin_init spin_step s"
  shows "(pc_of s t = Holding \<longrightarrow> pc_of s u = Holding \<longrightarrow> t = u)
    \<and> (lock_word s = 0 \<longleftrightarrow> (\<forall>v. pc_of s v \<noteq> Holding))
    \<and> (pc_of s t = Exchanging \<longrightarrow> (\<forall>v. pc_of s v \<noteq> Holding) \<longrightarrow>
         spin_next (lock_word s) (pc_of s t) = (1, Holding))"
proof -
  have "spin_inv s" using assms by (rule spin.reachable_inv)
  then have m: "pc_of s t = Holding \<longrightarrow> pc_of s u = Holding \<longrightarrow> t = u"
    and l: "lock_word s = 0 \<longleftrightarrow> (\<forall>v. pc_of s v \<noteq> Holding)"
    unfolding spin_inv_def by metis+
  from l have "pc_of s t = Exchanging \<longrightarrow> (\<forall>v. pc_of s v \<noteq> Holding) \<longrightarrow>
      spin_next (lock_word s) (pc_of s t) = (1, Holding)"
    by (simp add: InterlockedExchange_def)
  with m l show ?thesis by blast
qed

theorem spin_lock_mutual_exclusion_witness:
  "\<exists>s :: bool spin_sys. reachable spin_init spin_step s \<and> pc_of s True = Holding \<and>
     lock_word s = 1 \<and> pc_of s False \<noteq> Holding"
proof -
  define s0 :: "bool spin_sys" where "s0 = \<lparr>lock_word = 0, pc_of = (\<lambda>_. Outside)\<rparr>"
  define s1 where "s1 = s0\<lparr>lock_word := 0, pc_of := (pc_of s0)(True := Exchanging)\<rparr>"
  define s2 where "s2 = s1\<lparr>lock_word := 1, pc_of := (pc_of s1)(True := Holding)\<rparr>"
  have "reachable spin_init spin_step s0" by (rule reach_init) (simp add: spin_init_def s0_def)
  moreover have "spin_step s0 s1" unfolding s1_def by (rule spin_step.intros) (simp add: s0_def)
  moreover have "spin_step s1 s2"
    unfolding s2_def by (rule spin_step.intros) (simp add: s1_def s0_def InterlockedExchange_def)
  ultimately have r: "reachable spin_init spin_step s2" by (blast intro: reach_step)
  have "pc_of s2 True = Holding" "lock_word s2 = 1" by (simp_all add: s2_def)
  with r spin_lock_mutual_exclusion [OF r, of True False] show ?thesis by blast
qed

section \<open>One running thread\<close>

lemma sgx_spin_lock_free [simp]: "sgx_spin_lock 0 = Some 1"
  by (simp add: sgx_spin_lock_def spin_run.simps InterlockedExchange_def)

lemma spin_run_busy: "spin_run lock pc = Some l \<Longrightarrow> \<not> (lock \<noteq> 0 \<and> pc \<in> {Exchanging, Spinning})"
proof (rule spin_run.raw_induct [where P = "\<lambda>lock pc _. \<not> (lock \<noteq> 0 \<and> pc \<in> {Exchanging, Spinning})"])
  fix spin_run :: "u32 \<Rightarrow> spin_pc \<Rightarrow> u32 option" and lock pc l
  assume IH: "\<And>lock pc l. spin_run lock pc = Some l \<Longrightarrow> \<not> (lock \<noteq> 0 \<and> pc \<in> {Exchanging, Spinning})"
    and r: "(if pc = Holding then Some lock else case spin_next lock pc of (lock, pc) \<Rightarrow> spin_run lock pc) = Some l"
  show "\<not> (lock \<noteq> 0 \<and> pc \<in> {Exchanging, Spinning})"
    using r IH [of 1 Spinning l] IH [of lock Spinning l]
    by (cases pc) (simp_all add: InterlockedExchange_def split: if_splits)
qed

lemma sgx_spin_lock_busy: "lock \<noteq> 0 \<Longrightarrow> sgx_spin_lock lock = None"
  using spin_run_busy [of lock Exchanging] by (cases "sgx_spin_lock lock") (auto simp: sgx_spin_lock_def)

lemma sgx_spin_lock_eq: "sgx_spin_lock lock = (if lock = 0 then Some 1 else None)"
  by (simp add: sgx_spin_lock_busy)

lemma sgx_spin_unlock_simp [simp]: "sgx_spin_unlock l = 0"
  by (simp add: sgx_spin_unlock_def)

end
