(* ===== verification/Trts_Ecall.thy ===== *)
theory Trts_Ecall
  imports Trts_Pic Trts_Protect Spinlock
begin

text \<open>
  Trusted calls (\<^verbatim>\<open>sdk/trts/trts_ecall.cpp\<close>): which ECALL may run, the table of known TCS pages, the
  initialization done by the first ECALL, dispatch, adding a thread and closing the enclave. A
  computation returns \<open>None\<close> when it does not return (a spin lock never released), \<open>Inl Abort\<close> when it
  aborts, and otherwise a status with the new state.
\<close>

section \<open>The outside of an ECALL\<close>

text \<open>
  What the code calls: the random source (the \<open>k\<close>-th read of 8 bytes), \<^verbatim>\<open>malloc\<close> for the table of TCS pages,
  EACCEPT, the EMODPR OCALL, global constructors, the body of an ECALL function, which may change
  the state, return a status, or leave through \<^verbatim>\<open>pthread_exit\<close>, the MKTCS OCALL with the state it comes
  back to (the untrusted side may enter the enclave again before it returns), and the hooks that run at the
  end of a root ECALL: \<^verbatim>\<open>_pthread_tls_destructors\<close>, \<^verbatim>\<open>_pthread_wakeup_join\<close> and \<^verbatim>\<open>tc_set_idle\<close>.
\<close>

datatype ecall_outcome = Returned sgx_status | Pthread_exit

record ecall_env =
  e_rand :: "nat \<Rightarrow> u64 option"
  e_malloc :: "nat \<Rightarrow> bool"
  e_eaccept :: eaccept
  e_modpr :: "u64 \<Rightarrow> u64 \<Rightarrow> u64 \<Rightarrow> sgx_status exec option"
  e_ctors :: "trts \<Rightarrow> trts"
  e_func :: "addr \<Rightarrow> addr \<Rightarrow> trts \<Rightarrow> (ecall_outcome \<times> trts) option"
  e_mktcs :: "addr \<Rightarrow> trts \<Rightarrow> int \<times> trts"
  e_tls_destructors :: "trts \<Rightarrow> trts"
  e_wakeup_join :: "addr \<Rightarrow> trts \<Rightarrow> trts"
  e_tc_set_idle :: "trts \<Rightarrow> trts"

section \<open>Which ECALL may run\<close>

definition nr_ecall :: "enclave_image \<Rightarrow> nat" where
  "nr_ecall img = length (ecall_table img)"

definition is_ecall_allowed :: "enclave_image \<Rightarrow> trts \<Rightarrow> thread_data \<Rightarrow> u32 \<Rightarrow> sgx_status exec" where
  "is_ecall_allowed img s td ordinal =
     (if unat ordinal \<ge> nr_ecall img then Inr SGX_ERROR_INVALID_FUNCTION
      else if last_sp td = stack_base_addr td
      then Inr (if fst (ecall_table img ! unat ordinal) then SGX_ERROR_ECALL_NOT_ALLOWED else SGX_SUCCESS)
      else if ctx_ocall_flag (memory s) (last_sp td) \<noteq> OCALL_FLAG then Inl Abort
      else
        let ocall_index = ctx_ocall_index (memory s) (last_sp td) in
        if ocall_index \<ge> nr_ocall img then Inr SGX_ERROR_INVALID_FUNCTION
        else Inr (if entry_table img ! (unat ocall_index * nr_ecall img + unat ordinal)
                  then SGX_SUCCESS else SGX_ERROR_ECALL_NOT_ALLOWED))"

abbreviation (input) ECMD_INIT_ENCLAVE :: int where "ECMD_INIT_ENCLAVE \<equiv> -1"
abbreviation (input) ECMD_ORET :: int where "ECMD_ORET \<equiv> -2"
abbreviation (input) ECMD_EXCEPT :: int where "ECMD_EXCEPT \<equiv> -3"
abbreviation (input) ECMD_MKTCS :: int where "ECMD_MKTCS \<equiv> -4"
abbreviation (input) ECMD_UNINIT_ENCLAVE :: int where "ECMD_UNINIT_ENCLAVE \<equiv> -5"
abbreviation (input) ECMD_ECALL_PTHREAD :: int where "ECMD_ECALL_PTHREAD \<equiv> -6"

definition get_func_addr :: "enclave_image \<Rightarrow> trts \<Rightarrow> thread_data \<Rightarrow> u32 \<Rightarrow> (sgx_status \<times> addr) exec" where
  "get_func_addr img s td ordinal =
     (if ordinal = word_of_int ECMD_ECALL_PTHREAD then Inr (SGX_SUCCESS, pthread_thread_run img)
      else exec_bind (is_ecall_allowed img s td ordinal) (\<lambda>status.
        if status \<noteq> SGX_SUCCESS then Inr (status, NULL)
        else
          let a = snd (ecall_table img ! unat ordinal) in
          if \<not> sgx_is_within_enclave (erange s) a 0 then Inr (SGX_ERROR_UNEXPECTED, a) else Inr (SGX_SUCCESS, a)))"

section \<open>The table of TCS pages\<close>

text \<open>\<open>None\<close>: every value drawn is zero, for ever; \<open>Some None\<close>: the random source fails.\<close>

partial_function (option) draw_cookie :: "(nat \<Rightarrow> u64 option) \<Rightarrow> nat \<Rightarrow> u64 option option" where
  "draw_cookie rand k =
     (case rand k of
        None \<Rightarrow> Some None
      | Some r \<Rightarrow> if r = 0 then draw_cookie rand (Suc k) else Some (Some r))"

definition ENC_TCS_POINTER :: "trts \<Rightarrow> addr \<Rightarrow> u64" where
  "ENC_TCS_POINTER s x = x XOR g_tcs_cookie s"

definition DEC_TCS_POINTER :: "trts \<Rightarrow> u64 \<Rightarrow> addr" where
  "DEC_TCS_POINTER s x = x XOR g_tcs_cookie s"

definition do_save_tcs :: "ecall_env \<Rightarrow> addr \<Rightarrow> trts \<Rightarrow> (sgx_status \<times> trts) option" where
  "do_save_tcs e ptcs s =
     map_option (\<lambda>c. case c of
         None \<Rightarrow> (SGX_ERROR_UNEXPECTED, s)
       | Some s \<Rightarrow>
           if \<not> e_malloc e (length (g_tcs_node s)) then (SGX_ERROR_UNEXPECTED, s)
           else (SGX_SUCCESS, s\<lparr>g_tcs_node := ENC_TCS_POINTER s ptcs # g_tcs_node s\<rparr>))
       (if g_tcs_cookie s = 0
        then map_option (map_option (\<lambda>r. s\<lparr>g_tcs_cookie := r\<rparr>)) (draw_cookie (e_rand e) 0)
        else Some (Some s))"

fun del_tcs_node :: "(u64 \<Rightarrow> addr) \<Rightarrow> addr \<Rightarrow> u64 list \<Rightarrow> u64 list" where
  "del_tcs_node dec ptcs [] = []"
| "del_tcs_node dec ptcs (n # ns) = (if dec n = ptcs then ns else n # del_tcs_node dec ptcs ns)"

definition do_del_tcs :: "addr \<Rightarrow> addr \<Rightarrow> trts \<Rightarrow> trts" where
  "do_del_tcs tcs ptcs s =
     (if \<not> is_utility_thread s tcs then s
      else s\<lparr>g_tcs_node := del_tcs_node (DEC_TCS_POINTER s) ptcs (g_tcs_node s)\<rparr>)"

text \<open>The static TCS pages, saved in the order of the layout; \<open>Inl\<close> is the result -1 with the state at that point.\<close>

definition add_static_threads :: "ecall_env \<Rightarrow> nat \<Rightarrow> nat \<Rightarrow> u64 \<Rightarrow> trts \<Rightarrow> (trts + trts) option" where
  "add_static_threads e start stop offset s =
     layout_walk (layout_table (gdata s)) (\<lambda>s l offset.
       if l_si_flags l AND SI_FLAGS_TCS \<noteq> 0 \<and> l_attributes l = 3
       then (case do_save_tcs e (l_rva l + offset + image_base (gdata s)) s of
               None \<Rightarrow> None
             | Some (st, s) \<Rightarrow> Some (if st = SGX_SUCCESS then Inr s else Inl s))
       else Some (Inr s)) start stop offset s"

section \<open>Running an ECALL\<close>

definition run_ecall :: "enclave_image \<Rightarrow> ecall_env \<Rightarrow> addr \<Rightarrow> u32 \<Rightarrow> addr \<Rightarrow> trts \<Rightarrow> (ecall_outcome \<times> trts) exec option" where
  "run_ecall img e tcs ordinal ms s =
     (case get_func_addr img s (tds s tcs) ordinal of
        Inl f \<Rightarrow> Some (Inl f)
      | Inr (status, a) \<Rightarrow>
          if status = SGX_SUCCESS then map_option Inr (e_func e a ms s) else Some (Inr (Returned status, s)))"

text \<open>The initialization done under \<^verbatim>\<open>g_ife_lock\<close> by the first ECALL: an early return with a status, or the state.\<close>

definition first_ecall :: "ecall_env \<Rightarrow> trts \<Rightarrow> (sgx_status option \<times> trts) exec option" where
  "first_ecall e s =
     (if EDMM_supported (gdata s)
      then case add_static_threads e 0 (length (layout_table (gdata s))) 0 s of
             None \<Rightarrow> None
           | Some (Inl s) \<Rightarrow> Some (Inr (Some SGX_ERROR_UNEXPECTED, s))
           | Some (Inr s) \<Rightarrow>
               (case change_protection (gdata s) (memory s) (trts_mprotect (g_sdk_version s) (e_eaccept e) (e_modpr e))
                       (image_base (gdata s)) of
                  None \<Rightarrow> None
                | Some (Inl f) \<Rightarrow> Some (Inl f)
                | Some (Inr (status, _)) \<Rightarrow>
                    if status \<noteq> SGX_SUCCESS
                    then Some (Inr (Some status, s\<lparr>g_ife_lock := sgx_spin_unlock (g_ife_lock s)\<rparr>))
                    else Some (Inr (None, (e_ctors e s)\<lparr>g_is_first_ecall := False\<rparr>)))
      else Some (Inr (None, (e_ctors e s)\<lparr>g_is_first_ecall := False\<rparr>)))"

definition trts_ecall :: "enclave_image \<Rightarrow> ecall_env \<Rightarrow> addr \<Rightarrow> u32 \<Rightarrow> addr \<Rightarrow> trts \<Rightarrow> (ecall_outcome \<times> trts) exec option" where
  "trts_ecall img e tcs ordinal ms s =
     (if g_is_first_ecall s
      then if last_sp (tds s tcs) \<noteq> stack_base_addr (tds s tcs)
           then Some (Inr (Returned SGX_ERROR_ECALL_NOT_ALLOWED, s))
           else (case sgx_spin_lock (g_ife_lock s) of
                   None \<Rightarrow> None
                 | Some l \<Rightarrow>
                     let s = s\<lparr>g_ife_lock := l\<rparr> in
                     (case first_ecall e s of
                        None \<Rightarrow> None
                      | Some (Inl f) \<Rightarrow> Some (Inl f)
                      | Some (Inr (Some status, s)) \<Rightarrow> Some (Inr (Returned status, s))
                      | Some (Inr (None, s)) \<Rightarrow>
                          run_ecall img e tcs ordinal ms (s\<lparr>g_ife_lock := sgx_spin_unlock (g_ife_lock s)\<rparr>)))
      else run_ecall img e tcs ordinal ms s)"

definition needs_init :: "enclave_image \<Rightarrow> int \<Rightarrow> addr \<Rightarrow> trts \<Rightarrow> bool" where
  "needs_init img index tcs s \<longleftrightarrow>
     (case get_thread_data s tcs of
        None \<Rightarrow> True
      | Some td \<Rightarrow>
          stack_base_addr td = last_sp td \<and>
          (thread_policy img \<noteq> 0 \<or> pthread_linked img \<and> tls_state s tcs = SGX_PTHREAD_EXIT \<or> index = ECMD_ECALL_PTHREAD))"

text \<open>
  A root ECALL with the pthread library linked: \<^verbatim>\<open>_pthread_enabled\<close> resets the state word in the TLS,
  \<^verbatim>\<open>pthread_exit\<close> comes back through \<^verbatim>\<open>setjmp\<close> with the stack pointer reset. At the end the TLS destructors
  run and a joining thread is woken.
\<close>

definition root_ecall_pthread :: "enclave_image \<Rightarrow> ecall_env \<Rightarrow> int \<Rightarrow> addr \<Rightarrow> addr \<Rightarrow> trts \<Rightarrow> (sgx_status \<times> trts) exec option" where
  "root_ecall_pthread img e index ms tcs s =
     (let s = s\<lparr>tls_state := (tls_state s)(tcs := SGX_SUCCESS)\<rparr> in
      map_option (map_sum id (\<lambda>(out, s).
        let (status, s) =
              (case out of
                 Returned st \<Rightarrow> (st, s)
               | Pthread_exit \<Rightarrow> (SGX_PTHREAD_EXIT, set_td tcs ((tds s tcs)\<lparr>last_sp := stack_base_addr (tds s tcs)\<rparr>) s)) in
        (status,
         e_wakeup_join e ms (e_tls_destructors e
           (if index = ECMD_ECALL_PTHREAD \<or> status = SGX_PTHREAD_EXIT
            then s\<lparr>tls_state := (tls_state s)(tcs := SGX_PTHREAD_EXIT)\<rparr> else s)))))
        (trts_ecall img e tcs (word_of_int index) ms s))"

text \<open>Where no \<^verbatim>\<open>setjmp\<close> of this call is active, \<^verbatim>\<open>pthread_exit\<close> does not come back here: \<open>None\<close>.\<close>

definition plain_ecall :: "enclave_image \<Rightarrow> ecall_env \<Rightarrow> int \<Rightarrow> addr \<Rightarrow> addr \<Rightarrow> trts \<Rightarrow> (sgx_status \<times> trts) exec option" where
  "plain_ecall img e index ms tcs s =
     (case trts_ecall img e tcs (word_of_int index) ms s of
        None \<Rightarrow> None
      | Some (Inl f) \<Rightarrow> Some (Inl f)
      | Some (Inr (Returned st, s)) \<Rightarrow> Some (Inr (st, s))
      | Some (Inr (Pthread_exit, s)) \<Rightarrow> None)"

text \<open>Unbound threads give the free memory they cache back after a root ECALL.\<close>

definition ecall_idle :: "enclave_image \<Rightarrow> ecall_env \<Rightarrow> addr \<Rightarrow> sgx_status \<times> trts \<Rightarrow> sgx_status \<times> trts" where
  "ecall_idle img e tcs = (\<lambda>(status, s).
     (status,
      if thread_policy img \<noteq> 0 \<and> stack_base_addr (tds s tcs) = last_sp (tds s tcs) then e_tc_set_idle e s else s))"

definition do_ecall :: "enclave_image \<Rightarrow> ecall_env \<Rightarrow> int \<Rightarrow> addr \<Rightarrow> addr \<Rightarrow> trts \<Rightarrow> (sgx_status \<times> trts) exec option" where
  "do_ecall img e index ms tcs s =
     (if g_enclave_state s \<noteq> ENCLAVE_INIT_DONE then Some (Inr (SGX_ERROR_UNEXPECTED, s))
      else
        let (status, s) = (if needs_init img index tcs s then do_init_thread img tcs False s else (SGX_SUCCESS, s)) in
        if status \<noteq> SGX_SUCCESS then Some (Inr (status, s))
        else map_option (map_sum id (ecall_idle img e tcs))
               (if stack_base_addr (tds s tcs) = last_sp (tds s tcs) \<and> pthread_linked img
                then root_ecall_pthread img e index ms tcs s
                else plain_ecall img e index ms tcs s))"

section \<open>Adding a thread and closing the enclave\<close>

text \<open>
  \<^verbatim>\<open>do_add_thread\<close> with its effect on the state: once the pages are accepted, the template is copied to the TCS
  page and its three offsets adjusted in place; then the MKTCS OCALL hands the page over, and the code goes
  on in the state the OCALL comes back to. (The checks, the pages and the status are those of
  \<open>do_add_thread\<close>, whose TCS component tells whether the OCALL was made.)
\<close>

definition tcs_fields :: "mem \<Rightarrow> addr \<Rightarrow> tcs_t" where
  "tcs_fields m tcs = \<lparr>ossa = load64 m (tcs + 16), ofs_base = load64 m (tcs + 48), ogs_base = load64 m (tcs + 56)\<rparr>"

definition write_tcs :: "u8 list \<Rightarrow> u64 \<Rightarrow> addr \<Rightarrow> mem \<Rightarrow> mem" where
  "write_tcs template base tcs m =
     (let m = put_bytes m tcs template;
          m = store64 m (tcs + 16) (tcs + load64 m (tcs + 16) - base);
          m = store64 m (tcs + 48) (tcs + load64 m (tcs + 48) - base) in
      store64 m (tcs + 56) (tcs + load64 m (tcs + 56) - base))"

definition add_thread_state :: "enclave_image \<Rightarrow> ecall_env \<Rightarrow> addr \<Rightarrow> trts \<Rightarrow> (sgx_status \<times> trts) exec option" where
  "add_thread_state img e ptcs s =
     (let base = image_base (gdata s);
          template = tcs_fields (put_bytes (memory s) ptcs (tcs_template img)) ptcs;
          (rc, s') = e_mktcs e ptcs (s\<lparr>memory := write_tcs (tcs_template img) base ptcs (memory s)\<rparr>) in
      map_option (map_sum id (\<lambda>(status, _, t). (status, case t of None \<Rightarrow> s | Some _ \<Rightarrow> s')))
        (do_add_thread (gdata s) (rsrv s) (e_eaccept e) template (\<lambda>_. rc) ptcs))"

text \<open>\<open>ms_ptcs\<close> reads the pointer from the untrusted structure.\<close>

definition do_ecall_add_thread ::
  "enclave_image \<Rightarrow> ecall_env \<Rightarrow> (addr \<Rightarrow> addr) \<Rightarrow> addr \<Rightarrow> addr \<Rightarrow> trts \<Rightarrow> (sgx_status \<times> trts) exec option" where
  "do_ecall_add_thread img e ms_ptcs tcs ms s =
     (if \<not> is_utility_thread s tcs \<or> ms = NULL \<or> \<not> sgx_is_outside_enclave (erange s) ms 8
      then Some (Inr (SGX_ERROR_UNEXPECTED, s))
      else
        let ptcs = ms_ptcs ms in
        if ptcs = NULL then Some (Inr (SGX_ERROR_UNEXPECTED, s))
        else case do_save_tcs e ptcs s of
               None \<Rightarrow> None
             | Some (status, s) \<Rightarrow>
                 if status \<noteq> SGX_SUCCESS then Some (Inr (status, s))
                 else map_option (map_sum id (\<lambda>(status, s).
                        (status, if status \<noteq> SGX_SUCCESS then do_del_tcs tcs ptcs s else s))) (add_thread_state img e ptcs s))"

text \<open>The trim of the saved TCS pages other than the caller's: the pages accepted.\<close>

definition uninit_trim :: "eaccept \<Rightarrow> (u64 \<Rightarrow> addr) \<Rightarrow> addr \<Rightarrow> u64 list \<Rightarrow> addr list exec option" where
  "uninit_trim eaccept dec tcs nodes =
     foldM (\<lambda>acc n.
       if dec n = tcs then Some (Inr acc)
       else let start = dec n in
            and_then (sgx_accept_forward eaccept (SI_FLAG_TRIM OR SI_FLAG_MODIFIED) start (start + SE_PAGE_SIZE)) acc) nodes []"

definition do_uninit_enclave ::
  "ecall_env \<Rightarrow> (trts \<Rightarrow> trts) \<Rightarrow> addr \<Rightarrow> trts \<Rightarrow> (sgx_status \<times> addr list \<times> trts) exec option" where
  "do_uninit_enclave e dtors tcs s =
     (if \<not> EDMM_supported (gdata s) then Some (Inr (SGX_ERROR_UNEXPECTED, [], set_enclave_state ENCLAVE_CRASHED s))
      else if \<not> is_utility_thread s tcs \<and> is_dynamic_thread_exist (gdata s)
      then Some (Inr (SGX_ERROR_UNEXPECTED, [], set_enclave_state ENCLAVE_CRASHED s))
      else
        let nodes = g_tcs_node s; s = s\<lparr>g_uninit_flag := g_uninit_flag s OR 1, g_tcs_node := []\<rparr> in
        case uninit_trim (e_eaccept e) (DEC_TCS_POINTER s) tcs nodes of
          None \<Rightarrow> None
        | Some (Inl f) \<Rightarrow> Some (Inl f)
        | Some (Inr ps) \<Rightarrow>
            (case sgx_spin_lock (g_ife_lock s) of
               None \<Rightarrow> None
             | Some l \<Rightarrow>
                 let s = s\<lparr>g_ife_lock := l\<rparr>;
                     s = (if \<not> g_is_first_ecall s then dtors s else s);
                     s = s\<lparr>g_ife_lock := sgx_spin_unlock (g_ife_lock s)\<rparr> in
                 Some (Inr (SGX_SUCCESS, ps, set_enclave_state ENCLAVE_CRASHED s))))"

section \<open>Dispatch follows the interface of the enclave\<close>

text \<open>
  What the interface permits: without pending OCALLs the public ECALLs, inside an OCALL the ECALLs that the
  interface lists for it. \<open>fs\<close> are the frames of the pending OCALLs, innermost first.
\<close>

definition ecall_permitted :: "enclave_image \<Rightarrow> mem \<Rightarrow> addr list \<Rightarrow> nat \<Rightarrow> bool" where
  "ecall_permitted img m fs k \<longleftrightarrow>
     k < nr_ecall img \<and>
     (case fs of
        [] \<Rightarrow> \<not> fst (ecall_table img ! k)
      | f # _ \<Rightarrow> ctx_ocall_index m f < nr_ocall img \<and>
                 entry_table img ! (unat (ctx_ocall_index m f) * nr_ecall img + k))"

lemma is_ecall_allowed_permitted:
  assumes "ocall_frames (memory s) (stack_base_addr td) (last_sp td) fs"
  shows "\<exists>st. is_ecall_allowed img s td ordinal = Inr st \<and>
    (st = SGX_SUCCESS \<longleftrightarrow> ecall_permitted img (memory s) fs (unat ordinal)) \<and>
    st \<in> {SGX_SUCCESS, SGX_ERROR_INVALID_FUNCTION, SGX_ERROR_ECALL_NOT_ALLOWED}"
proof (cases fs)
  case Nil
  with assms show ?thesis
    by (cases "unat ordinal < nr_ecall img") (simp_all add: is_ecall_allowed_def ecall_permitted_def not_less)
next
  case (Cons f fs')
  with assms have f: "last_sp td = f" "unat f + 240 \<le> unat (stack_base_addr td)" "ctx_ocall_flag (memory s) f = OCALL_FLAG"
    by auto
  then have "f \<noteq> stack_base_addr td" by auto
  with f Cons show ?thesis
    by (cases "unat ordinal < nr_ecall img"; cases "ctx_ocall_index (memory s) f < nr_ocall img")
      (auto simp: is_ecall_allowed_def ecall_permitted_def Let_def)
qed

text \<open>
  C28. An ECALL runs exactly when the enclave's interface permits it at this point: once the enclave is set
  up, for a thread whose pending OCALLs form a proper stack, \<^verbatim>\<open>trts_ecall\<close> runs the function of the ordinal
  when it is permitted (a public function outside any OCALL, a function allowed for the innermost pending
  OCALL otherwise) and its address is inside the enclave; in every other case no function runs, the state
  is unchanged and the status tells the reason. The one ordinal that the interface does not govern is
  \<^verbatim>\<open>ECMD_ECALL_PTHREAD\<close>, which always runs \<^verbatim>\<open>_pthread_thread_run\<close>, whatever OCALLs are pending. It never aborts.
\<close>
theorem trts_ecall_dispatch:
  assumes "\<not> g_is_first_ecall s" "ocall_frames (memory s) (stack_base_addr (tds s tcs)) (last_sp (tds s tcs)) fs"
  shows "if ordinal = word_of_int ECMD_ECALL_PTHREAD
    then trts_ecall img e tcs ordinal ms s = map_option Inr (e_func e (pthread_thread_run img) ms s)
    else if ecall_permitted img (memory s) fs (unat ordinal)
    then (let a = snd (ecall_table img ! unat ordinal) in
          trts_ecall img e tcs ordinal ms s =
            (if sgx_is_within_enclave (erange s) a 0 then map_option Inr (e_func e a ms s)
             else Some (Inr (Returned SGX_ERROR_UNEXPECTED, s))))
    else (\<exists>st \<in> {SGX_ERROR_INVALID_FUNCTION, SGX_ERROR_ECALL_NOT_ALLOWED}.
          trts_ecall img e tcs ordinal ms s = Some (Inr (Returned st, s)))"
proof (cases "ordinal = word_of_int ECMD_ECALL_PTHREAD")
  case True
  with assms show ?thesis by (simp add: trts_ecall_def run_ecall_def get_func_addr_def)
next
  case interface: False
  obtain st where st: "is_ecall_allowed img s (tds s tcs) ordinal = Inr st"
    "st = SGX_SUCCESS \<longleftrightarrow> ecall_permitted img (memory s) fs (unat ordinal)"
    "st \<in> {SGX_SUCCESS, SGX_ERROR_INVALID_FUNCTION, SGX_ERROR_ECALL_NOT_ALLOWED}"
    using is_ecall_allowed_permitted [OF assms(2)] by blast
  show ?thesis
  proof (cases "ecall_permitted img (memory s) fs (unat ordinal)")
    case True
    with assms interface st show ?thesis by (simp add: trts_ecall_def run_ecall_def get_func_addr_def Let_def)
  next
    case False
    with assms interface st show ?thesis by (auto simp: trts_ecall_def run_ecall_def get_func_addr_def)
  qed
qed

definition demo_env :: ecall_env where
  "demo_env = \<lparr>e_rand = (\<lambda>k. Some (word_of_nat k)), e_malloc = (\<lambda>_. True), e_eaccept = (\<lambda>_ _. 0),
     e_modpr = (\<lambda>_ _ _. Some (Inr SGX_SUCCESS)), e_ctors = (\<lambda>s. s),
     e_func = (\<lambda>a ms s. Some (Returned (SGX_STATUS (ucast a)), s)), e_mktcs = (\<lambda>_ s. (0, s)),
     e_tls_destructors = (\<lambda>s. s), e_wakeup_join = (\<lambda>_ s. s), e_tc_set_idle = (\<lambda>s. s)\<rparr>"

definition demo_ready :: trts where
  "demo_ready = demo_trts\<lparr>g_is_first_ecall := False, tds := (\<lambda>_. demo_thread)\<rparr>"

theorem trts_ecall_dispatch_witness:
  "trts_ecall demo_image demo_env 0x120000 0 0x7000 demo_ready = Some (Inr (Returned (SGX_STATUS 0x101000), demo_ready)) \<and>
   (\<exists>st \<in> {SGX_ERROR_INVALID_FUNCTION, SGX_ERROR_ECALL_NOT_ALLOWED}.
      trts_ecall demo_image demo_env 0x120000 1 0x7000 demo_ready = Some (Inr (Returned st, demo_ready))) \<and>
   trts_ecall demo_image demo_env 0x120000 0xfffffffa 0x7000 demo_ready = Some (Inr (Returned (SGX_STATUS 0x101200), demo_ready))"
proof -
  have d: "\<not> g_is_first_ecall demo_ready"
    "ocall_frames (memory demo_ready) (stack_base_addr (tds demo_ready 0x120000)) (last_sp (tds demo_ready 0x120000)) []"
    by (simp_all add: demo_ready_def demo_thread_def)
  have p: "ecall_permitted demo_image (memory demo_ready) [] (unat (0 :: u32))"
    "\<not> ecall_permitted demo_image (memory demo_ready) [] (unat (1 :: u32))"
    by (simp_all add: ecall_permitted_def nr_ecall_def demo_image_def)
  have a: "snd (ecall_table demo_image ! unat (0 :: u32)) = 0x101000" "sgx_is_within_enclave (erange demo_ready) 0x101000 0"
    by (simp_all add: demo_image_def demo_ready_def demo_trts_def sgx_is_within_enclave_def)
  show ?thesis
    using trts_ecall_dispatch [OF d, of 0 demo_image demo_env "0x7000"] trts_ecall_dispatch [OF d, of 1 demo_image demo_env "0x7000"]
      trts_ecall_dispatch [OF d, of "0xfffffffa" demo_image demo_env "0x7000"] p a
    by (simp add: demo_env_def Let_def demo_image_def)
qed

section \<open>The table of TCS pages\<close>

definition tcs_table :: "trts \<Rightarrow> addr list" where
  "tcs_table s = map (DEC_TCS_POINTER s) (g_tcs_node s)"

definition table_ok :: "trts \<Rightarrow> bool" where
  "table_ok s \<longleftrightarrow> (g_tcs_cookie s = 0 \<longrightarrow> g_tcs_node s = [])"

lemma tcs_pointer_roundtrip [simp]: "DEC_TCS_POINTER s (ENC_TCS_POINTER s x) = x"
  by (simp add: DEC_TCS_POINTER_def ENC_TCS_POINTER_def xor.assoc)

lemma draw_cookie_nonzero: "draw_cookie rand k = Some (Some c) \<Longrightarrow> c \<noteq> 0"
proof (rule draw_cookie.raw_induct [where P = "\<lambda>rand k r. \<forall>c. r = Some c \<longrightarrow> c \<noteq> 0", THEN spec, THEN mp])
  fix draw_cookie :: "(nat \<Rightarrow> u64 option) \<Rightarrow> nat \<Rightarrow> u64 option option" and rand k r
  assume IH: "\<And>rand k r. draw_cookie rand k = Some r \<Longrightarrow> \<forall>c. r = Some c \<longrightarrow> c \<noteq> 0"
    and step: "(case rand k of None \<Rightarrow> Some None | Some r \<Rightarrow> if r = 0 then draw_cookie rand (Suc k) else Some (Some r)) = Some r"
  show "\<forall>c. r = Some c \<longrightarrow> c \<noteq> 0"
    using step IH [of rand "Suc k"] by (auto split: option.splits if_splits)
qed simp_all

lemma do_save_tcs_table:
  assumes "table_ok s" "do_save_tcs e ptcs s = Some (st, s')"
  shows "table_ok s' \<and> tcs_table s' = (if st = SGX_SUCCESS then ptcs # tcs_table s else tcs_table s) \<and>
    st \<in> {SGX_SUCCESS, SGX_ERROR_UNEXPECTED} \<and>
    s' = s\<lparr>g_tcs_cookie := g_tcs_cookie s', g_tcs_node := g_tcs_node s'\<rparr>"
  using assms draw_cookie_nonzero [of "e_rand e" 0]
  by (auto simp: do_save_tcs_def tcs_table_def table_ok_def DEC_TCS_POINTER_def ENC_TCS_POINTER_def xor.assoc
      split: option.splits if_splits)

lemma is_utility_thread_frame [simp]:
  "is_utility_thread (s\<lparr>g_tcs_cookie := c\<rparr>) tcs = is_utility_thread s tcs"
  "is_utility_thread (s\<lparr>g_tcs_node := ns\<rparr>) tcs = is_utility_thread s tcs"
  by (simp_all add: is_utility_thread_def get_thread_data_def)

lemma DEC_TCS_POINTER_frame [simp]: "DEC_TCS_POINTER (s\<lparr>g_tcs_node := ns\<rparr>) = DEC_TCS_POINTER s"
    "DEC_TCS_POINTER (s\<lparr>g_uninit_flag := f\<rparr>) = DEC_TCS_POINTER s"
  by (simp_all add: DEC_TCS_POINTER_def fun_eq_iff)

lemma del_tcs_node_table: "map dec (del_tcs_node dec p ns) = remove1 p (map dec ns)"
  by (induction ns) auto

lemma do_del_tcs_table:
  assumes "is_utility_thread s tcs"
  shows "tcs_table (do_del_tcs tcs p s) = remove1 p (tcs_table s)" "table_ok s \<Longrightarrow> table_ok (do_del_tcs tcs p s)"
  using assms by (simp_all add: do_del_tcs_def tcs_table_def del_tcs_node_table table_ok_def)

lemma write_tcs_fields:
  "tcs_fields (write_tcs template base tcs m) tcs =
   (let t = tcs_fields (put_bytes m tcs template) tcs in
    \<lparr>ossa = tcs + ossa t - base, ofs_base = tcs + ofs_base t - base, ogs_base = tcs + ogs_base t - base\<rparr>)"
  by (simp add: tcs_fields_def write_tcs_def Let_def mem_simps)

lemma write_tcs_outside:
  assumes "length template = 72" "x \<notin> window tcs 72"
  shows "write_tcs template base tcs m x = m x"
proof -
  have o: "x \<notin> window (tcs + d) 8" if "unat d \<le> 64" for d
    using assms(2) window_shift [of x tcs d 8 72] that by auto
  have "put_bytes m tcs template x = m x"
    using assms by (auto simp: put_bytes_def window_def word_less_nat_alt)
  then show ?thesis
    using o [of 16] o [of 48] o [of 56] by (simp add: write_tcs_def Let_def store_outside)
qed

text \<open>\<open>add_thread_state\<close> stops before the OCALL with the state unchanged, or makes it on the written TCS page.\<close>

lemma add_thread_state_cases:
  assumes "add_thread_state img e p s = Some (Inr (st, s'))"
  obtains (early) "st = SGX_ERROR_UNEXPECTED" "s' = s"
  | (ocall) rc where "e_mktcs e p (s\<lparr>memory := write_tcs (tcs_template img) (image_base (gdata s)) p (memory s)\<rparr>) = (rc, s')"
      "st = (if rc = 0 then SGX_SUCCESS else SGX_ERROR_UNEXPECTED)"
proof -
  obtain rc s2 where m: "e_mktcs e p (s\<lparr>memory := write_tcs (tcs_template img) (image_base (gdata s)) p (memory s)\<rparr>) = (rc, s2)"
    by fastforce
  let ?t = "tcs_fields (put_bytes (memory s) p (tcs_template img)) p"
  from assms m obtain ps t where d: "do_add_thread (gdata s) (rsrv s) (e_eaccept e) ?t (\<lambda>_. rc) p = Some (Inr (st, ps, t))"
      "s' = (case t of None \<Rightarrow> s | Some _ \<Rightarrow> s2)"
    by (auto simp: add_thread_state_def map_sum_Inr_iff)
  then have "(t = None \<and> st = SGX_ERROR_UNEXPECTED) \<or>
      ((\<exists>t'. t = Some t') \<and> st = (if rc = 0 then SGX_SUCCESS else SGX_ERROR_UNEXPECTED))"
    by (auto simp: do_add_thread_def Let_def map_sum_Inr_iff split: option.splits sum.splits if_splits prod.splits)
  with d(2) m early ocall show ?thesis by auto
qed

text \<open>
  What the MKTCS OCALL may do to the enclave before it returns: the calls it admits keep the table in
  order and leave the waiting thread a utility thread; they may add and remove entries and change
  everything else.
\<close>

definition mktcs_rely :: "ecall_env \<Rightarrow> addr \<Rightarrow> addr \<Rightarrow> bool" where
  "mktcs_rely e tcs p \<longleftrightarrow> (\<forall>s rc s'. e_mktcs e p s = (rc, s') \<longrightarrow>
     (table_ok s \<longrightarrow> table_ok s') \<and> (is_utility_thread s tcs \<longrightarrow> is_utility_thread s' tcs))"

text \<open>
  C30. Adding a thread is a transaction on the table of TCS pages, also when other threads change the table
  during its OCALL. For a call of \<^verbatim>\<open>do_ecall_add_thread\<close> that returns, either it failed before the OCALL, and
  then the state is as before except for the table's representation, which holds the same entries; or the
  caller is the utility thread, the argument lies outside the enclave and names a TCS, the OCALL was made
  with exactly that TCS put in front of the table and only the first 72 bytes of its page written, with the
  offsets of the template made relative to the enclave base, and the call succeeds when the OCALL does.
  Success leaves the table as the OCALL left it; failure takes the entry (its first occurrence) out again,
  so that without interference the table is exactly what it was.
\<close>
theorem add_thread_transaction:
  assumes "table_ok s" "mktcs_rely e tcs (ms_ptcs ms)" "length (tcs_template img) = 72"
    and "do_ecall_add_thread img e ms_ptcs tcs ms s = Some (Inr (st, s'))"
  shows "table_ok s' \<and>
    (st = SGX_ERROR_UNEXPECTED \<and> tcs_table s' = tcs_table s \<and>
       s' = s\<lparr>g_tcs_cookie := g_tcs_cookie s', g_tcs_node := g_tcs_node s'\<rparr>
     \<or> is_utility_thread s tcs \<and> ms \<noteq> NULL \<and> sgx_is_outside_enclave (erange s) ms 8 \<and> ms_ptcs ms \<noteq> NULL \<and>
       (\<exists>s1 rc s2. e_mktcs e (ms_ptcs ms) s1 = (rc, s2) \<and>
          tcs_table s1 = ms_ptcs ms # tcs_table s \<and>
          s1 = s\<lparr>g_tcs_cookie := g_tcs_cookie s1, g_tcs_node := g_tcs_node s1, memory := memory s1\<rparr> \<and>
          (\<forall>x. x \<notin> window (ms_ptcs ms) 72 \<longrightarrow> memory s1 x = memory s x) \<and>
          tcs_fields (memory s1) (ms_ptcs ms) =
            (let t = tcs_fields (put_bytes (memory s) (ms_ptcs ms) (tcs_template img)) (ms_ptcs ms);
                 at = (\<lambda>off. ms_ptcs ms + off - image_base (gdata s)) in
             \<lparr>ossa = at (ossa t), ofs_base = at (ofs_base t), ogs_base = at (ogs_base t)\<rparr>) \<and>
          st = (if rc = 0 then SGX_SUCCESS else SGX_ERROR_UNEXPECTED) \<and>
          tcs_table s' = (if rc = 0 then tcs_table s2 else remove1 (ms_ptcs ms) (tcs_table s2)) \<and>
          (rc \<noteq> 0 \<and> tcs_table s2 = tcs_table s1 \<longrightarrow> tcs_table s' = tcs_table s)))"
proof (cases "\<not> is_utility_thread s tcs \<or> ms = NULL \<or> \<not> sgx_is_outside_enclave (erange s) ms 8 \<or> ms_ptcs ms = NULL")
  case True
  then have "do_ecall_add_thread img e ms_ptcs tcs ms s = Some (Inr (SGX_ERROR_UNEXPECTED, s))"
    by (auto simp: do_ecall_add_thread_def Let_def)
  with assms show ?thesis by simp
next
  case False
  let ?p = "ms_ptcs ms"
  from False assms(4) obtain st1 s0 where sv: "do_save_tcs e ?p s = Some (st1, s0)"
    by (auto simp: do_ecall_add_thread_def Let_def split: option.splits)
  note t = do_save_tcs_table [OF assms(1) sv]
  show ?thesis
  proof (cases "st1 = SGX_SUCCESS")
    case ok: True
    obtain c ns where s0: "s0 = s\<lparr>g_tcs_cookie := c, g_tcs_node := ns\<rparr>" using t by blast
    have ut: "is_utility_thread s0 tcs" and t0: "tcs_table s0 = ?p # tcs_table s" "table_ok s0"
      using False t ok by (simp_all add: s0)
    from False sv ok assms(4) obtain s2 where r: "add_thread_state img e ?p s0 = Some (Inr (st, s2))"
        "s' = (if st \<noteq> SGX_SUCCESS then do_del_tcs tcs ?p s2 else s2)"
      by (auto simp: do_ecall_add_thread_def Let_def map_sum_Inr_iff)
    from r(1) show ?thesis
    proof (cases rule: add_thread_state_cases)
      case early
      then have "tcs_table s' = tcs_table s" "table_ok s'"
        using do_del_tcs_table [OF ut, of ?p] r(2) t0 by simp_all
      moreover have "s' = s\<lparr>g_tcs_cookie := g_tcs_cookie s', g_tcs_node := g_tcs_node s'\<rparr>"
        using early r(2) ut by (simp add: do_del_tcs_def s0)
      ultimately show ?thesis using early(1) by blast
    next
      case (ocall rc)
      let ?s1 = "s0\<lparr>memory := write_tcs (tcs_template img) (image_base (gdata s0)) ?p (memory s0)\<rparr>"
      have t1: "tcs_table ?s1 = ?p # tcs_table s" "table_ok ?s1" "is_utility_thread ?s1 tcs"
        using t0 ut by (simp_all add: tcs_table_def table_ok_def DEC_TCS_POINTER_def [abs_def] is_utility_thread_def get_thread_data_def split: if_splits)
      then have s2: "table_ok s2" "is_utility_thread s2 tcs"
        using assms(2) ocall(1) by (auto simp: mktcs_rely_def)
      then have tb: "table_ok s'" "tcs_table s' = (if rc = 0 then tcs_table s2 else remove1 ?p (tcs_table s2))"
        using r(2) ocall(2) do_del_tcs_table [OF s2(2), of ?p] by simp_all
      have mem: "memory ?s1 x = memory s x" if "x \<notin> window ?p 72" for x
        using write_tcs_outside [OF assms(3) that] by (simp add: s0)
      have fl: "tcs_fields (memory ?s1) ?p = (let t = tcs_fields (put_bytes (memory s) ?p (tcs_template img)) ?p;
            at = (\<lambda>off. ?p + off - image_base (gdata s)) in
          \<lparr>ossa = at (ossa t), ofs_base = at (ofs_base t), ogs_base = at (ogs_base t)\<rparr>)"
        by (simp add: s0 write_tcs_fields Let_def)
      have s1: "?s1 = s\<lparr>g_tcs_cookie := g_tcs_cookie ?s1, g_tcs_node := g_tcs_node ?s1, memory := memory ?s1\<rparr>"
        by (simp add: s0)
      have "rc \<noteq> 0 \<and> tcs_table s2 = tcs_table ?s1 \<longrightarrow> tcs_table s' = tcs_table s" using tb(2) t1(1) by simp
      then show ?thesis using tb(1) False
        by (intro conjI disjI2 exI [of _ ?s1] exI [of _ rc] exI [of _ s2])
          (use ocall t1(1) s1 mem fl tb(2) in \<open>auto simp only:\<close>)
    qed
  next
    case bad: False
    with False sv assms(4) have "st = st1" "s' = s0" by (auto simp: do_ecall_add_thread_def Let_def)
    with t bad show ?thesis by auto
  qed
qed

lemma demo_env_supply: "draw_cookie (e_rand demo_env) 0 = Some (Some 1)" "e_malloc demo_env n"
  by (simp_all add: demo_env_def draw_cookie.simps)

lemma demo_add_thread:
  "\<exists>ps t. do_add_thread demo_dyn demo_rsrv (\<lambda>_ _. 0) template (\<lambda>_. rc) 0x120000 =
     Some (Inr (if rc = 0 then SGX_SUCCESS else SGX_ERROR_UNEXPECTED, ps, Some t))"
  by (simp add: do_add_thread_def demo_dyn_def demo_layout_def demo_rsrv_def check_dynamic_range_def
      check_heap_dyn_range_def get_heap_base_def get_heap_min_size_def get_heap_size_def Let_def
      check_utility_thread_dynamic_stack_def check_dynamic_entry_range_def get_dynamic_layout_by_id_def
      check_rsrv_dyn_range_def DYN_THREAD_IDS_def page_bytes_def add_thread_pages_def apply_EPC_pages_def
      sgx_accept_forward_def sgx_accept_backward_def accept_forward.simps accept_backward.simps with_rc_def)

definition demo_utility :: trts where
  "demo_utility = demo_ready\<lparr>tds := (\<lambda>_. demo_thread\<lparr>td_flags := 1\<rparr>), gdata := demo_dyn\<rparr>"

lemma demo_add_thread_run:
  "\<exists>s'. do_ecall_add_thread demo_image (demo_env\<lparr>e_mktcs := (\<lambda>_ s. (rc, s))\<rparr>) (\<lambda>_. 0x120000) 0x110000 0x7000 demo_utility =
     Some (Inr (if rc = 0 then SGX_SUCCESS else SGX_ERROR_UNEXPECTED, s'))"
proof -
  let ?e = "demo_env\<lparr>e_mktcs := (\<lambda>_ s. (rc, s))\<rparr>"
  obtain s1 where s1: "do_save_tcs ?e 0x120000 demo_utility = Some (SGX_SUCCESS, s1)" "gdata s1 = demo_dyn" "rsrv s1 = demo_rsrv"
    using demo_env_supply by (auto simp: do_save_tcs_def demo_utility_def demo_ready_def demo_trts_def)
  obtain ps t where "do_add_thread demo_dyn demo_rsrv (\<lambda>_ _. 0) (tcs_fields (put_bytes (memory s1) 0x120000 (tcs_template demo_image)) 0x120000)
      (\<lambda>_. rc) 0x120000 = Some (Inr (if rc = 0 then SGX_SUCCESS else SGX_ERROR_UNEXPECTED, ps, Some t))"
    using demo_add_thread by blast
  then have "\<exists>s2. add_thread_state demo_image ?e 0x120000 s1 =
      Some (Inr (if rc = 0 then SGX_SUCCESS else SGX_ERROR_UNEXPECTED, s2))"
    using s1(2,3) by (simp add: add_thread_state_def demo_env_def Let_def)
  moreover have "is_utility_thread demo_utility 0x110000" "sgx_is_outside_enclave (erange demo_utility) 0x7000 8"
    by (simp_all add: is_utility_thread_def get_thread_data_def demo_utility_def demo_ready_def demo_trts_def demo_thread_def
        demo_td_def sgx_is_outside_enclave_def)
  ultimately show ?thesis using s1(1) by (auto simp: do_ecall_add_thread_def Let_def)
qed

theorem add_thread_transaction_witness:
  "(\<exists>s'. do_ecall_add_thread demo_image (demo_env\<lparr>e_mktcs := (\<lambda>_ s. (0, s))\<rparr>) (\<lambda>_. 0x120000) 0x110000 0x7000 demo_utility =
       Some (Inr (SGX_SUCCESS, s')) \<and> tcs_table s' = [0x120000]) \<and>
   (\<exists>s'. do_ecall_add_thread demo_image (demo_env\<lparr>e_mktcs := (\<lambda>_ s. (1, s))\<rparr>) (\<lambda>_. 0x120000) 0x110000 0x7000 demo_utility =
       Some (Inr (SGX_ERROR_UNEXPECTED, s')) \<and> tcs_table s' = [])"
proof -
  have ok: "table_ok demo_utility" "tcs_table demo_utility = []" "length (tcs_template demo_image) = 72"
    by (simp_all add: table_ok_def tcs_table_def demo_utility_def demo_ready_def demo_trts_def demo_image_def)
  have rely: "mktcs_rely (demo_env\<lparr>e_mktcs := (\<lambda>_ s. (rc, s))\<rparr>) 0x110000 0x120000" for rc by (simp add: mktcs_rely_def)
  obtain s0 s1 where r: "do_ecall_add_thread demo_image (demo_env\<lparr>e_mktcs := (\<lambda>_ s. (0, s))\<rparr>) (\<lambda>_. 0x120000) 0x110000 0x7000 demo_utility =
      Some (Inr (SGX_SUCCESS, s0))"
    "do_ecall_add_thread demo_image (demo_env\<lparr>e_mktcs := (\<lambda>_ s. (1, s))\<rparr>) (\<lambda>_. 0x120000) 0x110000 0x7000 demo_utility =
      Some (Inr (SGX_ERROR_UNEXPECTED, s1))"
    using demo_add_thread_run [of 0] demo_add_thread_run [of 1] by auto
  have "tcs_table s0 = [0x120000]"
    using add_thread_transaction [OF ok(1) _ ok(3) r(1)] rely ok(2) by auto
  moreover have "tcs_table s1 = []"
    using add_thread_transaction [OF ok(1) _ ok(3) r(2)] rely ok(2) by auto
  ultimately show ?thesis using r by blast
qed

section \<open>Closing the enclave\<close>

lemma uninit_trim_exact:
  assumes "\<forall>n \<in> set nodes. unat (dec n) + 4096 < 2 ^ 64"
  shows "uninit_trim ea dec tcs nodes =
    (let ps = filter (\<lambda>p. p \<noteq> tcs) (map dec nodes) in
     Some (if \<forall>p \<in> set ps. ea (SI_FLAG_TRIM OR SI_FLAG_MODIFIED) p = 0 then Inr ps else Inl Abort))"
proof -
  let ?fl = "SI_FLAG_TRIM OR SI_FLAG_MODIFIED :: u64"
  let ?ok = "\<lambda>n. dec n = tcs \<or> ea ?fl (dec n) = 0" and ?out = "\<lambda>n. if dec n = tcs then [] else [dec n]"
  have step: "(if dec n = tcs then Some (Inr acc)
      else let start = dec n in and_then (sgx_accept_forward ea ?fl start (start + SE_PAGE_SIZE)) acc) =
    Some (if ?ok n then Inr (acc @ ?out n) else Inl Abort)" if "n \<in> set nodes" for n acc
    using accept_forward_exact [of "dec n" 1 ea ?fl "[]"] assms that
    by (simp add: sgx_accept_forward_def and_then_def Let_def pages_def)
  have out: "concat (map ?out nodes) = filter (\<lambda>p. p \<noteq> tcs) (map dec nodes)" by (induction nodes) auto
  have "uninit_trim ea dec tcs nodes =
      Some (if \<forall>n \<in> set nodes. ?ok n then Inr ([] @ concat (map ?out nodes)) else Inl Abort)"
    unfolding uninit_trim_def by (rule foldM_collect) (rule step)
  moreover have "(\<forall>n \<in> set nodes. ?ok n) \<longleftrightarrow> (\<forall>p \<in> set (filter (\<lambda>p. p \<noteq> tcs) (map dec nodes)). ea ?fl p = 0)" by auto
  ultimately show ?thesis unfolding out Let_def by simp
qed

text \<open>
  C31. Closing the enclave, with \<^verbatim>\<open>g_ife_lock\<close> free: when the caller may close it, exactly the saved TCS pages
  other than the caller's own are trimmed, each once and in the order of the table, and the enclave is left
  in state \<^verbatim>\<open>ENCLAVE_CRASHED\<close> with the lock free; when the processor rejects one of the pages the enclave aborts.
\<close>
theorem uninit_enclave_trims_table:
  assumes "EDMM_supported (gdata s)" "is_utility_thread s tcs \<or> \<not> is_dynamic_thread_exist (gdata s)"
    and "g_ife_lock s = 0" "\<forall>p \<in> set (tcs_table s). unat p + 4096 < 2 ^ 64"
  shows "let ps = filter (\<lambda>p. p \<noteq> tcs) (tcs_table s) in
    if \<forall>p \<in> set ps. e_eaccept e (SI_FLAG_TRIM OR SI_FLAG_MODIFIED) p = 0
    then \<exists>s'. do_uninit_enclave e dtors tcs s = Some (Inr (SGX_SUCCESS, ps, s')) \<and>
           g_enclave_state s' = ENCLAVE_CRASHED \<and> g_ife_lock s' = 0 \<and>
           (g_is_first_ecall s \<longrightarrow> g_tcs_node s' = [] \<and> memory s' = memory s)
    else do_uninit_enclave e dtors tcs s = Some (Inl Abort)"
proof -
  have "\<forall>n \<in> set (g_tcs_node s). unat (DEC_TCS_POINTER s n) + 4096 < 2 ^ 64"
    using assms(4) by (simp add: tcs_table_def)
  note t = uninit_trim_exact [OF this, of "e_eaccept e" tcs, folded tcs_table_def]
  show ?thesis
  proof (cases "\<forall>p \<in> set (filter (\<lambda>p. p \<noteq> tcs) (tcs_table s)). e_eaccept e (SI_FLAG_TRIM OR SI_FLAG_MODIFIED) p = 0")
    case True
    with t have "uninit_trim (e_eaccept e) (DEC_TCS_POINTER s) tcs (g_tcs_node s) =
        Some (Inr (filter (\<lambda>p. p \<noteq> tcs) (tcs_table s)))" by (simp add: Let_def)
    with True assms(1-3) show ?thesis
      by (cases "g_is_first_ecall s") (simp_all add: do_uninit_enclave_def Let_def sgx_spin_unlock_def set_enclave_state_def)
  next
    case False
    with t have "uninit_trim (e_eaccept e) (DEC_TCS_POINTER s) tcs (g_tcs_node s) = Some (Inl Abort)" by (simp add: Let_def)
    with False assms(1,2) show ?thesis unfolding Let_def if_not_P [OF False] by (simp add: do_uninit_enclave_def Let_def)
  qed
qed

theorem uninit_enclave_trims_table_witness:
  "\<exists>s'. do_uninit_enclave demo_env (\<lambda>s. s) 0x120000
       (demo_ready\<lparr>tds := (\<lambda>_. demo_thread\<lparr>td_flags := 1\<rparr>), g_tcs_cookie := 5, g_tcs_node := [0x120005, 0x128005, 0x130005]\<rparr>) =
     Some (Inr (SGX_SUCCESS, [0x128000, 0x130000], s')) \<and> g_enclave_state s' = ENCLAVE_CRASHED"
proof -
  let ?s = "demo_ready\<lparr>tds := (\<lambda>_. demo_thread\<lparr>td_flags := 1\<rparr>), g_tcs_cookie := 5, g_tcs_node := [0x120005, 0x128005, 0x130005]\<rparr>"
  have t: "tcs_table ?s = [0x120000, 0x128000, 0x130000]" by (simp add: tcs_table_def DEC_TCS_POINTER_def)
  have h: "EDMM_supported (gdata ?s)" "is_utility_thread ?s 0x120000 \<or> \<not> is_dynamic_thread_exist (gdata ?s)" "g_ife_lock ?s = 0"
    "\<forall>p \<in> set (tcs_table ?s). unat p + 4096 < 2 ^ 64"
    unfolding t
    by (simp_all add: is_utility_thread_def get_thread_data_def demo_ready_def demo_trts_def demo_layout_def demo_thread_def demo_td_def)
  show ?thesis
    using uninit_enclave_trims_table [OF h, of demo_env "\<lambda>s. s"] unfolding t by (auto simp: demo_env_def Let_def)
qed

section \<open>The first ECALL\<close>

text \<open>The static threads of the layout: every TCS entry added and measured at build time, once per load.\<close>

definition static_tcs :: "global_data \<Rightarrow> addr list" where
  "static_tcs g =
     map (\<lambda>(l, off). l_rva l + off + image_base g)
       (filter (\<lambda>(l, off). l_si_flags l AND SI_FLAGS_TCS \<noteq> 0 \<and> l_attributes l = 3) (load_sequence (layout_table g)))"

definition cookie_ready :: "ecall_env \<Rightarrow> trts \<Rightarrow> bool" where
  "cookie_ready e s \<longleftrightarrow> g_tcs_cookie s \<noteq> 0 \<or> (\<exists>c. draw_cookie (e_rand e) 0 = Some (Some c))"

lemma do_save_tcs_ready:
  assumes "cookie_ready e s"
  shows "\<exists>s'. do_save_tcs e p s =
      Some (if e_malloc e (length (g_tcs_node s)) then SGX_SUCCESS else SGX_ERROR_UNEXPECTED, s') \<and> cookie_ready e s'"
  using assms draw_cookie_nonzero [of "e_rand e" 0]
  by (cases "g_tcs_cookie s = 0") (auto simp: do_save_tcs_def cookie_ready_def)

definition static_step :: "ecall_env \<Rightarrow> trts \<Rightarrow> layout_t \<Rightarrow> u64 \<Rightarrow> (trts + trts) option" where
  "static_step e s l offset =
     (if l_si_flags l AND SI_FLAGS_TCS \<noteq> 0 \<and> l_attributes l = 3
      then (case do_save_tcs e (l_rva l + offset + image_base (gdata s)) s of
              None \<Rightarrow> None
            | Some (st, s) \<Rightarrow> Some (if st = SGX_SUCCESS then Inr s else Inl s))
      else Some (Inr s))"

lemma add_static_threads_fold:
  "groups_wf (layout_table (gdata s)) \<Longrightarrow>
   add_static_threads e 0 (length (layout_table (gdata s))) 0 s =
   foldM (\<lambda>s (l, off). static_step e s l off) (load_sequence (layout_table (gdata s))) s"
  by (simp add: add_static_threads_def static_step_def [abs_def] layout_walk_load_sequence)

abbreviation is_static_tcs :: "layout_t \<times> u64 \<Rightarrow> bool" where
  "is_static_tcs \<equiv> (\<lambda>(l, off). l_si_flags l AND SI_FLAGS_TCS \<noteq> 0 \<and> l_attributes l = 3)"

lemma static_fold_exact:
  assumes "table_ok s" "cookie_ready e s" "\<forall>n. e_malloc e n"
  shows "\<exists>c ns. foldM (\<lambda>s (l, off). static_step e s l off) xs s = Some (Inr (s\<lparr>g_tcs_cookie := c, g_tcs_node := ns\<rparr>)) \<and>
    tcs_table (s\<lparr>g_tcs_cookie := c, g_tcs_node := ns\<rparr>) =
      rev (map (\<lambda>(l, off). l_rva l + off + image_base (gdata s)) (filter is_static_tcs xs)) @ tcs_table s"
  using assms
proof (induction xs arbitrary: s)
  case Nil
  have "s = s\<lparr>g_tcs_cookie := g_tcs_cookie s, g_tcs_node := g_tcs_node s\<rparr>" by simp
  then show ?case by (intro exI [of _ "g_tcs_cookie s"] exI [of _ "g_tcs_node s"]) simp
next
  case (Cons x xs)
  obtain l off where x: "x = (l, off)" by (cases x)
  show ?case
  proof (cases "is_static_tcs x")
    case True
    obtain s1 where s1: "do_save_tcs e (l_rva l + off + image_base (gdata s)) s = Some (SGX_SUCCESS, s1)" "cookie_ready e s1"
      using do_save_tcs_ready [OF Cons.prems(2), of "l_rva l + off + image_base (gdata s)"] Cons.prems(3) by auto
    note t = do_save_tcs_table [OF Cons.prems(1) s1(1)]
    then obtain c ns where r: "s1 = s\<lparr>g_tcs_cookie := c, g_tcs_node := ns\<rparr>" by blast
    from t s1(2) Cons.prems(3) Cons.IH [of s1] True x s1(1) show ?thesis
      by (auto simp: static_step_def r)
  next
    case False
    with Cons x show ?thesis by (auto simp: static_step_def)
  qed
qed

text \<open>A failure on the way leaves everything but the table as it was.\<close>

definition table_frame :: "trts \<Rightarrow> trts \<Rightarrow> bool" where
  "table_frame s s' \<longleftrightarrow> s'\<lparr>g_tcs_cookie := 0, g_tcs_node := []\<rparr> = s\<lparr>g_tcs_cookie := 0, g_tcs_node := []\<rparr>"

lemma table_frameD:
  assumes "table_frame s s'"
  shows "g_ife_lock s' = g_ife_lock s" "g_is_first_ecall s' = g_is_first_ecall s" "tds s' = tds s"
  using assms by (cases s; cases s'; simp add: table_frame_def)+

lemma static_step_frame: "static_step e s l off = Some (Inl s') \<or> static_step e s l off = Some (Inr s') \<Longrightarrow> table_frame s s'"
  by (auto simp: static_step_def do_save_tcs_def table_frame_def split: if_splits option.splits)

lemma static_fold_frame:
  "foldM (\<lambda>s (l, off). static_step e s l off) xs s = Some (Inl s') \<Longrightarrow> table_frame s s'"
proof (induction xs arbitrary: s)
  case (Cons x xs)
  obtain l off where x: "x = (l, off)" by (cases x)
  show ?case
  proof (cases "static_step e s l off = Some (Inl s')")
    case True
    then show ?thesis using static_step_frame by blast
  next
    case False
    with Cons.prems x obtain s1 where "static_step e s l off = Some (Inr s1)"
        "foldM (\<lambda>s (l, off). static_step e s l off) xs s1 = Some (Inl s')"
      by (auto split: option.splits sum.splits)
    then show ?thesis using Cons.IH [of s1] static_step_frame [of e s l off s1] by (simp add: table_frame_def)
  qed
qed simp

text \<open>
  C29. The first ECALL sets the enclave up exactly once and in order: called by a thread with no pending OCALL
  on an enclave with dynamic memory management, with memory, randomness and the page permissions
  available, \<^verbatim>\<open>trts_ecall\<close> records every static TCS of the layout in the table (in the documented load
  sequence, most recent first), then runs the global constructors, marks the initialization done,
  releases \<^verbatim>\<open>g_ife_lock\<close> and only then dispatches the call.
\<close>
theorem first_ecall_sets_up:
  assumes "g_is_first_ecall s" "last_sp (tds s tcs) = stack_base_addr (tds s tcs)" "g_ife_lock s = 0"
    and "EDMM_supported (gdata s)" "groups_wf (layout_table (gdata s))"
    and "table_ok s" "cookie_ready e s" "\<forall>n. e_malloc e n"
    and "change_protection (gdata s) (memory s) (trts_mprotect (g_sdk_version s) (e_eaccept e) (e_modpr e))
           (image_base (gdata s)) = Some (Inr (SGX_SUCCESS, evs))"
  shows "\<exists>s1 s2. tcs_table s1 = rev (static_tcs (gdata s)) @ tcs_table s \<and>
    s1 = s\<lparr>g_tcs_cookie := g_tcs_cookie s1, g_tcs_node := g_tcs_node s1, g_ife_lock := 1\<rparr> \<and>
    s2 = (e_ctors e s1)\<lparr>g_is_first_ecall := False, g_ife_lock := 0\<rparr> \<and>
    trts_ecall img e tcs ordinal ms s = run_ecall img e tcs ordinal ms s2"
proof -
  let ?s = "s\<lparr>g_ife_lock := 1\<rparr>"
  have p: "table_ok ?s" "cookie_ready e ?s" using assms(6,7) by (simp_all add: table_ok_def cookie_ready_def)
  have t: "tcs_table ?s = tcs_table s" by (simp add: tcs_table_def DEC_TCS_POINTER_def [abs_def])
  obtain c ns where s1: "add_static_threads e 0 (length (layout_table (gdata s))) 0 ?s =
      Some (Inr (?s\<lparr>g_tcs_cookie := c, g_tcs_node := ns\<rparr>))"
    "tcs_table (?s\<lparr>g_tcs_cookie := c, g_tcs_node := ns\<rparr>) = rev (static_tcs (gdata s)) @ tcs_table s"
    using static_fold_exact [OF p assms(8), of "load_sequence (layout_table (gdata s))"]
      add_static_threads_fold [of ?s e] assms(5) t by (auto simp: static_tcs_def)
  show ?thesis
    by (intro exI [of _ "?s\<lparr>g_tcs_cookie := c, g_tcs_node := ns\<rparr>"] exI conjI, rule s1(2), simp, rule refl)
      (use assms(1-4,9) s1(1) in \<open>simp add: trts_ecall_def first_ecall_def Let_def sgx_spin_unlock_def\<close>)
qed

definition demo_first :: trts where
  "demo_first = demo_trts\<lparr>tds := (\<lambda>_. demo_thread), gdata := demo_layout\<lparr>layout_table :=
     [\<lparr>l_id = 11, l_attributes = 3, l_page_count = 1, l_rva = 0x20000, l_si_flags = 0x100\<rparr>,
      \<lparr>l_id = 0x100c, l_attributes = 1, l_page_count = 2, l_rva = 0x8000, l_si_flags = 0\<rparr>]\<rparr>\<rparr>"

lemma demo_first_state:
  "g_is_first_ecall demo_first" "last_sp (tds demo_first t) = stack_base_addr (tds demo_first t)" "g_ife_lock demo_first = 0"
  "EDMM_supported (gdata demo_first)" "groups_wf (layout_table (gdata demo_first))"
  by (simp_all add: demo_first_def demo_trts_def demo_thread_def demo_layout_def) code_simp

theorem first_ecall_sets_up_witness:
  "\<exists>s1 s2. tcs_table s1 = [0x130000, 0x128000, 0x120000] \<and> g_tcs_node s2 = g_tcs_node s1 \<and>
    \<not> g_is_first_ecall s2 \<and> g_ife_lock s2 = 0 \<and>
    trts_ecall demo_image demo_env 0x120000 0 0x7000 demo_first = run_ecall demo_image demo_env 0x120000 0 0x7000 s2"
proof -
  have h: "table_ok demo_first" "cookie_ready demo_env demo_first" "\<forall>n. e_malloc demo_env n"
    by (simp_all add: table_ok_def cookie_ready_def demo_first_def demo_trts_def demo_env_supply)
  have c: "change_protection (gdata demo_first) (memory demo_first)
      (trts_mprotect (g_sdk_version demo_first) (e_eaccept demo_env) (e_modpr demo_env)) (image_base (gdata demo_first)) =
      Some (Inr (SGX_SUCCESS, []))"
    by code_simp
  have t: "static_tcs (gdata demo_first) = [0x120000, 0x128000, 0x130000]" "tcs_table demo_first = []" by code_simp+
  obtain s1 s2 where "tcs_table s1 = [0x130000, 0x128000, 0x120000]" "s2 = (e_ctors demo_env s1)\<lparr>g_is_first_ecall := False, g_ife_lock := 0\<rparr>"
      "trts_ecall demo_image demo_env 0x120000 0 0x7000 demo_first = run_ecall demo_image demo_env 0x120000 0 0x7000 s2"
    using first_ecall_sets_up [OF demo_first_state(1) demo_first_state(2) [of "0x120000"] demo_first_state(3-5) h c,
      where img = demo_image and ordinal = 0 and ms = "0x7000"]
    unfolding t by auto
  moreover have "e_ctors demo_env s = s" for s by (simp add: demo_env_def)
  ultimately show ?thesis by (intro exI [of _ s1] exI [of _ s2]) simp
qed

end
