(* ===== verification/Trts_Nsp.thy ===== *)
theory Trts_Nsp
  imports Trts_Ecall
begin

text \<open>
  The C entry point of the enclave (\<^verbatim>\<open>sdk/trts/trts_nsp.cpp\<close>) and the initialization command
  (\<^verbatim>\<open>do_init_enclave\<close> of \<^verbatim>\<open>sdk/trts/init_enclave.cpp\<close>): what each entry from outside may do in each state of the
  enclave.
\<close>

section \<open>The code\<close>

text \<open>
  What an entry relies on besides \<open>ecall_env\<close>: the random source of the stack guard, the global destructors,
  the TCS pointer in the untrusted structure of \<^verbatim>\<open>ECMD_MKTCS\<close>, the body of \<^verbatim>\<open>init_enclave\<close> (relocation, heap and
  library set-up; \<open>Inl\<close> when it aborts, otherwise its result 0 or -1), the exception handler, the address of
  the local variable that \<^verbatim>\<open>do_oret\<close> compares with, and what a read through the null pointer finds where
  \<^verbatim>\<open>do_oret\<close> is called on a thread that was never initialized. The theorems hold for any of them.
\<close>

record nsp_env =
  n_env :: ecall_env
  n_rdrand :: "nat \<Rightarrow> u32 option"
  n_dtors :: "trts \<Rightarrow> trts"
  n_ms_ptcs :: "addr \<Rightarrow> addr"
  n_init :: "addr \<Rightarrow> trts \<Rightarrow> (int \<times> trts) exec"
  n_exception :: "addr \<Rightarrow> trts \<Rightarrow> (sgx_status \<times> trts) exec option"
  n_local :: addr
  n_null_td :: thread_data

text \<open>An entry returns to the untrusted side with a status, or resumes the trusted code after an OCALL at a frame.\<close>

datatype entry_outcome = Exits sgx_status | Resumes addr

definition lock_enclave :: "trts \<Rightarrow> u32 \<times> trts" where
  "lock_enclave s =
     (g_enclave_state s,
      if g_enclave_state s = ENCLAVE_INIT_NOT_STARTED then set_enclave_state ENCLAVE_INIT_IN_PROGRESS s else s)"

definition memset_zero :: "addr \<Rightarrow> u64 \<Rightarrow> trts \<Rightarrow> trts" where
  "memset_zero p n s = (if p = NULL then s else s\<lparr>memory := mem_fill (memory s) p n 0\<rparr>)"

definition do_init_enclave :: "enclave_image \<Rightarrow> nsp_env \<Rightarrow> addr \<Rightarrow> addr \<Rightarrow> trts \<Rightarrow> (sgx_status \<times> trts) exec option" where
  "do_init_enclave img n ms tcs s =
     (let (old, s) = lock_enclave s in
      if old \<noteq> ENCLAVE_INIT_NOT_STARTED then Some (Inr (SGX_ERROR_UNEXPECTED, s))
      else case n_init n ms s of
        Inl f \<Rightarrow> Some (Inl f)
      | Inr (rc, s) \<Rightarrow>
          if rc \<noteq> 0 then Some (Inr (SGX_ERROR_UNEXPECTED, s))
          else
            let (status, s) = do_init_thread img tcs True s; g = gdata s in
            if status \<noteq> SGX_SUCCESS then Some (Inr (SGX_ERROR_UNEXPECTED, s))
            else if EDMM_supported g
            then map_option (map_sum id (\<lambda>_.
                   (SGX_SUCCESS,
                    set_enclave_state ENCLAVE_INIT_DONE
                      (memset_zero (image_base g + rsrv_offset g) (rsrv_mem_min_size (rsrv s))
                        (memset_zero (image_base g + heap_offset g) (get_heap_min_size g) s)))))
                   (accept_post_remove g (e_eaccept (n_env n)) 0 (length (layout_table g)) 0 [])
            else Some (Inr (SGX_SUCCESS,
                   set_enclave_state ENCLAVE_INIT_DONE
                     (memset_zero (image_base g + rsrv_offset g) (rsrv_size g)
                       (memset_zero (image_base g + heap_offset g) (heap_size g) s)))))"

text \<open>
  The handler of each command at \<^verbatim>\<open>cssa\<close> 0; any other index gets no handler and the initial status
  \<^verbatim>\<open>SGX_ERROR_UNEXPECTED\<close>. \<^verbatim>\<open>do_oret\<close> does not return when it accepts the frame.
\<close>

definition exits :: "(sgx_status \<times> trts) exec option \<Rightarrow> (entry_outcome \<times> trts) exec option" where
  "exits = map_option (map_sum id (map_prod Exits id))"

definition enter_oret :: "nsp_env \<Rightarrow> addr \<Rightarrow> trts \<Rightarrow> entry_outcome \<times> trts" where
  "enter_oret n tcs s =
     (case get_thread_data s tcs of
        Some td \<Rightarrow>
          (case do_oret td (memory s) (n_local n) of
             None \<Rightarrow> (Exits SGX_ERROR_UNEXPECTED, s) | Some (sp, td) \<Rightarrow> (Resumes sp, set_td tcs td s))
      | None \<Rightarrow>
          (case do_oret (n_null_td n) (memory s) (n_local n) of
             None \<Rightarrow> (Exits SGX_ERROR_UNEXPECTED, s) | Some (sp, _) \<Rightarrow> (Resumes sp, s)))"

definition enter_command ::
  "enclave_image \<Rightarrow> nsp_env \<Rightarrow> int \<Rightarrow> addr \<Rightarrow> addr \<Rightarrow> trts \<Rightarrow> (entry_outcome \<times> trts) exec option" where
  "enter_command img n index ms tcs s =
     (if index \<ge> 0 \<or> index = ECMD_ECALL_PTHREAD
      then (case init_stack_guard img (n_rdrand n) tcs s of
              Inl f \<Rightarrow> Some (Inl f)
            | Inr s \<Rightarrow> exits (do_ecall img (n_env n) index ms tcs s))
      else if index = ECMD_INIT_ENCLAVE then exits (do_init_enclave img n ms tcs s)
      else if index = ECMD_ORET then Some (Inr (enter_oret n tcs s))
      else if index = ECMD_MKTCS then exits (do_ecall_add_thread img (n_env n) (n_ms_ptcs n) tcs ms s)
      else if index = ECMD_UNINIT_ENCLAVE
      then exits (map_option (map_sum id (\<lambda>(status, _, s). (status, s))) (do_uninit_enclave (n_env n) (n_dtors n) tcs s))
      else Some (Inr (Exits SGX_ERROR_UNEXPECTED, s)))"

definition enter_exception :: "nsp_env \<Rightarrow> addr \<Rightarrow> trts \<Rightarrow> (entry_outcome \<times> trts) exec option" where
  "enter_exception n tcs s =
     exits (map_option (map_sum id (\<lambda>(status, s).
       (if check_static_stack_canary s tcs \<noteq> 0 then SGX_ERROR_STACK_OVERRUN else status, s))) (n_exception n tcs s))"

definition crash_unexpected :: "entry_outcome \<times> trts \<Rightarrow> entry_outcome \<times> trts" where
  "crash_unexpected = (\<lambda>(out, s). (out, if out = Exits SGX_ERROR_UNEXPECTED then set_enclave_state ENCLAVE_CRASHED s else s))"

definition enter_enclave ::
  "enclave_image \<Rightarrow> nsp_env \<Rightarrow> int \<Rightarrow> addr \<Rightarrow> addr \<Rightarrow> nat \<Rightarrow> trts \<Rightarrow> (entry_outcome \<times> trts) exec option" where
  "enter_enclave img n index ms tcs cssa s =
     (if sgx_is_enclave_crashed s then Some (Inr (Exits SGX_ERROR_ENCLAVE_CRASHED, s))
      else if index \<noteq> ECMD_INIT_ENCLAVE \<and> g_enclave_state s \<noteq> ENCLAVE_INIT_DONE
      then Some (Inr (Exits SGX_ERROR_UNEXPECTED, set_enclave_state ENCLAVE_CRASHED s))
      else map_option (map_sum id crash_unexpected)
             (if cssa = 0 then enter_command img n index ms tcs s
              else if cssa = 1 \<and> index = ECMD_EXCEPT then enter_exception n tcs s
              else Some (Inr (Exits SGX_ERROR_UNEXPECTED, s))))"

section \<open>Entries and the state of the enclave\<close>

lemma enter_crashed:
  "g_enclave_state s = ENCLAVE_CRASHED \<Longrightarrow>
   enter_enclave img n index ms tcs cssa s = Some (Inr (Exits SGX_ERROR_ENCLAVE_CRASHED, s))"
  by (simp add: enter_enclave_def sgx_is_enclave_crashed_def)




definition demo_nsp :: nsp_env where
  "demo_nsp = \<lparr>n_env = demo_env, n_rdrand = (\<lambda>k. Some (word_of_nat k)), n_dtors = (\<lambda>s. s), n_ms_ptcs = (\<lambda>_. 0x128000),
     n_init = (\<lambda>_ s. Inr (0, s)), n_exception = (\<lambda>_ s. Some (Inr (SGX_SUCCESS, s))), n_local = 0x10e000, n_null_td = demo_td\<rparr>"


section \<open>Initialization\<close>

lemma do_init_enclave_state:
  assumes "do_init_enclave img n ms tcs s = Some (Inr (st, s'))"
  shows "st = SGX_ERROR_UNEXPECTED \<or> st = SGX_SUCCESS \<and> g_enclave_state s = ENCLAVE_INIT_NOT_STARTED \<and>
    g_enclave_state s' = ENCLAVE_INIT_DONE"
  using assms
  by (auto simp: do_init_enclave_def lock_enclave_def Let_def map_sum_Inr_iff set_enclave_state_def
      split: sum.splits if_splits prod.splits)

text \<open>
  C35. The enclave is initialized once or not at all: whatever \<^verbatim>\<open>init_enclave\<close> does to the state, an entry with
  \<^verbatim>\<open>ECMD_INIT_ENCLAVE\<close> that returns either succeeds, and then the enclave had not been started and is now
  initialized, or leaves the enclave crashed, so that no later entry runs anything; in particular a second
  initialization crashes the enclave.
\<close>
theorem enclave_initialized_once:
  assumes "enter_enclave img n ECMD_INIT_ENCLAVE ms tcs 0 s = Some (Inr (out, s'))"
  shows "out = Exits SGX_SUCCESS \<and> g_enclave_state s = ENCLAVE_INIT_NOT_STARTED \<and> g_enclave_state s' = ENCLAVE_INIT_DONE
    \<or> out \<in> {Exits SGX_ERROR_UNEXPECTED, Exits SGX_ERROR_ENCLAVE_CRASHED} \<and> g_enclave_state s' = ENCLAVE_CRASHED"
proof (cases "g_enclave_state s = ENCLAVE_CRASHED")
  case True
  with assms enter_crashed [OF True] show ?thesis by simp
next
  case False
  with assms obtain st s1 where d: "do_init_enclave img n ms tcs s = Some (Inr (st, s1))"
      "(out, s') = crash_unexpected (Exits st, s1)"
    by (auto simp: enter_enclave_def sgx_is_enclave_crashed_def enter_command_def exits_def map_sum_Inr_iff)
  from do_init_enclave_state [OF d(1)] d(2) show ?thesis
    by (auto simp: crash_unexpected_def set_enclave_state_def)
qed

definition demo_fresh :: trts where
  "demo_fresh = demo_trts\<lparr>g_enclave_state := ENCLAVE_INIT_NOT_STARTED, gdata := demo_layout\<lparr>EDMM_supported := False\<rparr>\<rparr>"

lemma demo_init:
  "\<exists>s'. enter_enclave demo_image demo_nsp ECMD_INIT_ENCLAVE 0x7000 0x120000 0 demo_fresh = Some (Inr (Exits SGX_SUCCESS, s'))"
proof -
  let ?s = "set_enclave_state ENCLAVE_INIT_IN_PROGRESS demo_fresh"
  have l: "lock_enclave demo_fresh = (ENCLAVE_INIT_NOT_STARTED, ?s)"
    by (simp add: lock_enclave_def demo_fresh_def)
  have "memory ?s = demo_memory" "stack_chk_guard ?s = 0x1234" "image_base (gdata ?s) = 0x100000" "\<not> EDMM_supported (gdata ?s)"
    by (simp_all add: demo_fresh_def demo_trts_def demo_layout_def set_enclave_state_def)
  then obtain s1 where s1: "do_init_thread demo_image 0x120000 True ?s = (SGX_SUCCESS, s1)" "gdata s1 = gdata ?s"
    using demo_tls_info by (simp add: do_init_thread_def init_static_stack_canary_def set_td_def Let_def)
  have "n_init demo_nsp ms s = Inr (0, s)" for ms s by (simp add: demo_nsp_def)
  with l s1 \<open>\<not> EDMM_supported (gdata ?s)\<close>
  have "\<exists>s'. do_init_enclave demo_image demo_nsp 0x7000 0x120000 demo_fresh = Some (Inr (SGX_SUCCESS, s'))"
    by (simp add: do_init_enclave_def Let_def)
  moreover have "\<not> sgx_is_enclave_crashed demo_fresh" by (simp add: sgx_is_enclave_crashed_def demo_fresh_def)
  ultimately show ?thesis by (auto simp: enter_enclave_def enter_command_def exits_def crash_unexpected_def)
qed

theorem enclave_initialized_once_witness:
  "\<exists>s'. enter_enclave demo_image demo_nsp ECMD_INIT_ENCLAVE 0x7000 0x120000 0 demo_fresh =
     Some (Inr (Exits SGX_SUCCESS, s')) \<and> g_enclave_state s' = ENCLAVE_INIT_DONE"
  using demo_init enclave_initialized_once by fastforce

section \<open>A failing first ECALL\<close>

lemma first_ecall_failure:
  assumes "g_is_first_ecall s" "last_sp (tds s tcs) = stack_base_addr (tds s tcs)" "g_ife_lock s = 0"
    and "EDMM_supported (gdata s)" "groups_wf (layout_table (gdata s))"
    and "add_static_threads e 0 (length (layout_table (gdata s))) 0 (s\<lparr>g_ife_lock := 1\<rparr>) = Some (Inl s')"
  shows "trts_ecall img e tcs ordinal ms s = Some (Inr (Returned SGX_ERROR_UNEXPECTED, s')) \<and> g_ife_lock s' = 1"
proof -
  have "table_frame (s\<lparr>g_ife_lock := 1\<rparr>) s'"
    using static_fold_frame add_static_threads_fold [of "s\<lparr>g_ife_lock := 1\<rparr>" e] assms(5,6) by simp
  then show ?thesis using assms by (simp add: table_frameD trts_ecall_def first_ecall_def Let_def)
qed

text \<open>
  C32. A first ECALL that cannot record the static threads (no memory for an entry, no randomness) ends the
  enclave: for a bound, initialized thread without the pthread library, the entry returns
  \<^verbatim>\<open>SGX_ERROR_UNEXPECTED\<close> and leaves the enclave crashed, so that every later entry is refused. It returns with
  \<^verbatim>\<open>g_ife_lock\<close> still held: an ECALL that had passed the entry check before and asks for the lock now, on a
  thread without pending OCALLs, does not return.
\<close>
theorem first_ecall_failure_ends_enclave:
  assumes "g_enclave_state s = ENCLAVE_INIT_DONE" "g_is_first_ecall s" "g_ife_lock s = 0"
    and "self_addr (tds s tcs) \<noteq> 0" "last_sp (tds s tcs) = stack_base_addr (tds s tcs)"
    and "thread_policy img = 0" "\<not> pthread_linked img" "index \<ge> 0"
    and "EDMM_supported (gdata s)" "groups_wf (layout_table (gdata s))"
    and "add_static_threads (n_env n) 0 (length (layout_table (gdata s))) 0 (s\<lparr>g_ife_lock := 1\<rparr>) = Some (Inl s1)"
  shows "\<exists>s'. enter_enclave img n index ms tcs 0 s = Some (Inr (Exits SGX_ERROR_UNEXPECTED, s')) \<and>
    g_ife_lock s' = 1 \<and>
    (\<forall>img' n' index' ms' tcs' cssa'.
       enter_enclave img' n' index' ms' tcs' cssa' s' = Some (Inr (Exits SGX_ERROR_ENCLAVE_CRASHED, s'))) \<and>
    (\<forall>img' e' u ordinal ms'. last_sp (tds s' u) = stack_base_addr (tds s' u) \<longrightarrow> trts_ecall img' e' u ordinal ms' s' = None)"
proof -
  let ?s = "s1\<lparr>g_enclave_state := ENCLAVE_CRASHED\<rparr>"
  note f = first_ecall_failure [OF assms(2,5,3,9,10,11)]
  have "table_frame (s\<lparr>g_ife_lock := 1\<rparr>) s1"
    using static_fold_frame add_static_threads_fold [of "s\<lparr>g_ife_lock := 1\<rparr>" "n_env n"] assms(10,11) by simp
  then have fst: "g_is_first_ecall s1" using assms(2) by (simp add: table_frameD)
  have "do_ecall img (n_env n) index ms tcs s = Some (Inr (SGX_ERROR_UNEXPECTED, s1))"
    using f [of img "word_of_int index" ms] assms
    by (simp add: do_ecall_def needs_init_def get_thread_data_def plain_ecall_def ecall_idle_def)
  then have "enter_enclave img n index ms tcs 0 s = Some (Inr (Exits SGX_ERROR_UNEXPECTED, ?s))"
    using assms
    by (simp add: enter_enclave_def sgx_is_enclave_crashed_def enter_command_def init_stack_guard_def get_thread_data_def
        exits_def crash_unexpected_def set_enclave_state_def)
  moreover have "trts_ecall img' e' u ordinal ms' ?s = None" if "last_sp (tds ?s u) = stack_base_addr (tds ?s u)"
    for img' e' u ordinal ms'
    using fst f that by (simp add: trts_ecall_def sgx_spin_lock_busy)
  ultimately show ?thesis using f enter_crashed [of ?s] by (intro exI [of _ ?s]) simp
qed

theorem first_ecall_failure_ends_enclave_witness:
  "\<exists>s'. enter_enclave demo_image (demo_nsp\<lparr>n_env := demo_env\<lparr>e_malloc := (\<lambda>_. False)\<rparr>\<rparr>) 0 0x7000 0x120000 0 demo_first =
      Some (Inr (Exits SGX_ERROR_UNEXPECTED, s')) \<and>
    enter_enclave demo_image demo_nsp 0 0x7000 0x128000 0 s' = Some (Inr (Exits SGX_ERROR_ENCLAVE_CRASHED, s'))"
proof -
  let ?e = "demo_env\<lparr>e_malloc := (\<lambda>_. False)\<rparr>" and ?n = "demo_nsp\<lparr>n_env := demo_env\<lparr>e_malloc := (\<lambda>_. False)\<rparr>\<rparr>"
  have "load_sequence (layout_table (gdata demo_first)) = map (Pair (layout_table (gdata demo_first) ! 0)) [0, 0x8000, 0x10000]"
    by code_simp
  moreover have "\<exists>s'. static_step ?e (demo_first\<lparr>g_ife_lock := 1\<rparr>) (layout_table (gdata demo_first) ! 0) 0 = Some (Inl s')"
    by (simp add: static_step_def do_save_tcs_def demo_first_def demo_trts_def demo_layout_def demo_env_supply)
  ultimately obtain s1 where "add_static_threads ?e 0 (length (layout_table (gdata demo_first))) 0 (demo_first\<lparr>g_ife_lock := 1\<rparr>) = Some (Inl s1)"
    using add_static_threads_fold [of "demo_first\<lparr>g_ife_lock := 1\<rparr>" ?e] demo_first_state(5) by auto
  then have a: "add_static_threads (n_env ?n) 0 (length (layout_table (gdata demo_first))) 0 (demo_first\<lparr>g_ife_lock := 1\<rparr>) = Some (Inl s1)"
    by simp
  have d: "g_enclave_state demo_first = ENCLAVE_INIT_DONE" "self_addr (tds demo_first 0x120000) \<noteq> 0" "thread_policy demo_image = 0"
    "\<not> pthread_linked demo_image"
    by (simp_all add: demo_first_def demo_trts_def demo_thread_def demo_image_def)
  from first_ecall_failure_ends_enclave [OF d(1) demo_first_state(1,3) d(2) demo_first_state(2) d(3,4) order_refl
      demo_first_state(4,5) a, of "0x7000"]
  show ?thesis by blast
qed

end
