(* ===== verification/Rsrv_Vrd.thy ===== *)
theory Rsrv_Vrd
  imports Trts_Edmm
begin

text \<open>
  Virtual region descriptors of the reserved memory (\<^verbatim>\<open>sdk/tmm_rsrv/mm_vrd.cpp\<close>, \<^verbatim>\<open>mm_vrd_util.cpp\<close>): a
  doubly linked list of regions ordered by address, on nodes that come from a free list. The nodes
  live in an explicit store; walks along the list do not return (\<open>None\<close>) on a cyclic list, sanity
  checks that fail abort. This theory holds the code of all operations; what the later theories show of them
  is there, and the operations without a theorem are modelled only.
\<close>

section \<open>State\<close>

record vrd_t =
  start_addr :: u64
  v_size :: u64
  v_flags :: u32
  v_state :: u32
  v_perms :: u32
  page_type :: u32
  v_next :: addr
  v_prev :: addr

abbreviation (input) sizeof_vrd :: u64 where "sizeof_vrd \<equiv> 48"

abbreviation (input) VRD_STATE_FREE :: u32 where "VRD_STATE_FREE \<equiv> 0"
abbreviation (input) VRD_STATE_COMMITTED :: u32 where "VRD_STATE_COMMITTED \<equiv> 3"
abbreviation (input) VRD_STATE_COMMITTED_SYSTEM :: u32 where "VRD_STATE_COMMITTED_SYSTEM \<equiv> 4"
abbreviation (input) VRD_STATE_LOCKED :: u32 where "VRD_STATE_LOCKED \<equiv> 5"
abbreviation (input) VRD_PT_REG :: u32 where "VRD_PT_REG \<equiv> 1"

abbreviation (input) SGX_PAGE_NOACCESS :: u32 where "SGX_PAGE_NOACCESS \<equiv> 1"
abbreviation (input) SGX_PAGE_READONLY :: u32 where "SGX_PAGE_READONLY \<equiv> 2"
abbreviation (input) SGX_PAGE_READWRITE :: u32 where "SGX_PAGE_READWRITE \<equiv> 4"
abbreviation (input) SGX_PAGE_EXECUTE_READ :: u32 where "SGX_PAGE_EXECUTE_READ \<equiv> 0x20"
abbreviation (input) SGX_PAGE_EXECUTE_READWRITE :: u32 where "SGX_PAGE_EXECUTE_READWRITE \<equiv> 0x40"
abbreviation (input) SGX_PAGE_ENCLAVE_THREAD_CONTROL :: u32 where "SGX_PAGE_ENCLAVE_THREAD_CONTROL \<equiv> 0x80000000"
abbreviation (input) SGX_PAGE_ENCLAVE_DECOMMIT :: u32 where "SGX_PAGE_ENCLAVE_DECOMMIT \<equiv> 0x10000000"

text \<open>
  The globals of the subsystem, with the store of the nodes and the heap blocks handed out and not freed.
  \<open>g_vrdl_mutex\<close> tells whether the running thread holds the mutex.
\<close>

record rsrv_state =
  vrds :: "addr \<Rightarrow> vrd_t"
  g_vrdl :: addr
  g_vrdl_free_list :: addr
  g_vrdl_free_list_count :: u32
  live :: "addr list"
  mallocs :: nat
  g_vrdl_mutex :: bool
  g_first_alloc :: bool
  rsrv_mem_committed :: u64
  g_peak_rsrv_mem_committed :: u64
  errno :: int

text \<open>\<open>malloc k blocks\<close>: what the \<open>k\<close>-th allocation of a node returns when \<open>blocks\<close> are in use; \<open>NULL\<close> is failure.\<close>

type_synonym malloc = "nat \<Rightarrow> addr list \<Rightarrow> addr"

definition malloc_vrd :: "malloc \<Rightarrow> rsrv_state \<Rightarrow> addr \<times> rsrv_state" where
  "malloc_vrd malloc s =
     (let p = malloc (mallocs s) (live s) in
      (p, s\<lparr>mallocs := Suc (mallocs s), live := (if p = NULL then live s else p # live s)\<rparr>))"

definition free_vrd :: "addr \<Rightarrow> rsrv_state \<Rightarrow> rsrv_state" where
  "free_vrd p s = s\<lparr>live := removeAll p (live s)\<rparr>"

section \<open>The free list\<close>

abbreviation (input) VRDL_FREELIST_LOW_THRESHOLD :: u32 where "VRDL_FREELIST_LOW_THRESHOLD \<equiv> 4"
abbreviation (input) VRDL_FREELIST_ALLOC_TARGET :: u32 where "VRDL_FREELIST_ALLOC_TARGET \<equiv> 16"
abbreviation (input) VRDL_FREELIST_HIGH_THRESHOLD :: u32 where "VRDL_FREELIST_HIGH_THRESHOLD \<equiv> 32"

definition zero_vrd :: vrd_t where
  "zero_vrd = \<lparr>start_addr = 0, v_size = 0, v_flags = 0, v_state = 0, v_perms = 0, page_type = 0, v_next = NULL, v_prev = NULL\<rparr>"

definition free_list_put_vrd :: "addr \<Rightarrow> rsrv_state \<Rightarrow> bool \<times> rsrv_state" where
  "free_list_put_vrd vrd s =
     (if vrd = NULL then (False, s)
      else (True, s\<lparr>vrds := (vrds s)(vrd := zero_vrd\<lparr>v_state := VRD_STATE_FREE, v_next := g_vrdl_free_list s\<rparr>),
                    g_vrdl_free_list := vrd, g_vrdl_free_list_count := g_vrdl_free_list_count s + 1\<rparr>))"

definition free_list_get_vrd :: "rsrv_state \<Rightarrow> addr \<times> rsrv_state" where
  "free_list_get_vrd s =
     (if g_vrdl_free_list_count s = 0 then (NULL, s)
      else (g_vrdl_free_list s,
            s\<lparr>g_vrdl_free_list := v_next (vrds s (g_vrdl_free_list s)),
              g_vrdl_free_list_count := g_vrdl_free_list_count s - 1\<rparr>))"

lemma unat_plus_1_less: "(x :: u32) < y \<Longrightarrow> unat (x + 1) = Suc (unat x)"
  using unat_add_lem [of x 1] unsigned_less [of y, where 'a = nat] by (simp add: word_less_nat_alt)

text \<open>Allocate nodes until the free list has \<open>target\<close> of them; \<open>False\<close> when an allocation fails.\<close>

function free_list_fill :: "malloc \<Rightarrow> u32 \<Rightarrow> rsrv_state \<Rightarrow> bool \<times> rsrv_state" where
  "free_list_fill malloc target s =
     (if g_vrdl_free_list_count s < target
      then let (vrd, s) = malloc_vrd malloc s; (ok, s) = free_list_put_vrd vrd s in
           if ok then free_list_fill malloc target s else (False, s)
      else (True, s))"
  by pat_completeness auto
termination
  by (relation "measure (\<lambda>(_, target, s). unat target - unat (g_vrdl_free_list_count s))")
    (auto simp: malloc_vrd_def free_list_put_vrd_def Let_def unat_plus_1_less word_less_nat_alt split: if_splits)

declare free_list_fill.simps [simp del]

function free_list_drain :: "u32 \<Rightarrow> rsrv_state \<Rightarrow> rsrv_state" where
  "free_list_drain target s =
     (if g_vrdl_free_list_count s > target
      then let (vrd, s) = free_list_get_vrd s in
           if vrd = NULL then s else free_list_drain target (free_vrd vrd s)
      else s)"
  by pat_completeness auto
termination
  by (relation "measure (\<lambda>(target, s). unat (g_vrdl_free_list_count s))")
    (auto simp: free_list_get_vrd_def free_vrd_def unat_minus_one unat_gt_0 split: if_splits)

declare free_list_drain.simps [simp del]

definition free_list_check_level :: "malloc \<Rightarrow> rsrv_state \<Rightarrow> rsrv_state" where
  "free_list_check_level malloc s =
     (if g_vrdl_free_list_count s \<ge> VRDL_FREELIST_LOW_THRESHOLD \<and> g_vrdl_free_list_count s \<le> VRDL_FREELIST_HIGH_THRESHOLD then s
      else free_list_drain VRDL_FREELIST_ALLOC_TARGET (snd (free_list_fill malloc VRDL_FREELIST_ALLOC_TARGET s)))"

text \<open>A node for a new region: when the free list is empty it is refilled first.\<close>

definition get_vrd_refill :: "malloc \<Rightarrow> rsrv_state \<Rightarrow> addr \<times> rsrv_state" where
  "get_vrd_refill malloc s =
     (let (vrd, s) = free_list_get_vrd s in
      if vrd = NULL then free_list_get_vrd (free_list_check_level malloc s) else (vrd, s))"

partial_function (option) free_list_undo :: "rsrv_state \<Rightarrow> rsrv_state option" where
  "free_list_undo s =
     (if g_vrdl_free_list s = NULL then Some s
      else free_list_undo (free_vrd (g_vrdl_free_list s)
             (s\<lparr>g_vrdl_free_list := v_next (vrds s (g_vrdl_free_list s))\<rparr>)))"

definition init_vrdl :: "malloc \<Rightarrow> rsrv_state \<Rightarrow> (bool \<times> rsrv_state) option" where
  "init_vrdl malloc s =
     (if g_vrdl s \<noteq> NULL \<or> g_vrdl_free_list s \<noteq> NULL then Some (False, s)
      else let (ok, s) = free_list_fill malloc VRDL_FREELIST_HIGH_THRESHOLD (s\<lparr>g_vrdl_free_list_count := 0\<rparr>) in
           if ok then Some (True, s) else map_option (Pair False) (free_list_undo s))"

section \<open>Looking up regions\<close>

partial_function (option) vrd_rwx_from :: "(addr \<Rightarrow> vrd_t) \<Rightarrow> addr \<Rightarrow> (u64 \<times> u64) option option" where
  "vrd_rwx_from h current =
     (if current = NULL then Some None
      else if v_state (h current) = VRD_STATE_COMMITTED_SYSTEM \<and> v_perms (h current) = SGX_PAGE_EXECUTE_READWRITE
      then Some (Some (start_addr (h current), v_size (h current)))
      else vrd_rwx_from h (v_next (h current)))"

definition get_vrd_rwx :: "addr \<Rightarrow> addr \<Rightarrow> rsrv_state \<Rightarrow> (u64 \<times> u64) option option" where
  "get_vrd_rwx p_addr p_size s =
     (if p_addr = NULL \<or> p_size = NULL then Some None else vrd_rwx_from (vrds s) (g_vrdl s))"

definition addr_in_vrd :: "u64 \<Rightarrow> vrd_t \<Rightarrow> bool" where
  "addr_in_vrd vaddr vrd \<longleftrightarrow> vaddr \<ge> start_addr vrd \<and> vaddr < start_addr vrd + v_size vrd"

definition addrs_in_vrd :: "u64 \<Rightarrow> u64 \<Rightarrow> vrd_t \<Rightarrow> bool" where
  "addrs_in_vrd vaddr_start vaddr_end vrd \<longleftrightarrow>
     \<not> (vaddr_end < start_addr vrd \<or> vaddr_start \<ge> start_addr vrd + v_size vrd)"

partial_function (option) find_vrd_from :: "u64 \<Rightarrow> u64 \<Rightarrow> (addr \<Rightarrow> vrd_t) \<Rightarrow> u64 \<Rightarrow> addr \<Rightarrow> addr exec option" where
  "find_vrd_from heap_start heap_end h vaddr current =
     (if current = NULL then Some (Inr NULL)
      else if current < heap_start \<or> current > heap_end - sizeof_vrd then Some (Inl Abort)
      else if addr_in_vrd vaddr (h current) then Some (Inr current)
      else find_vrd_from heap_start heap_end h vaddr (v_next (h current)))"

definition find_vrd :: "global_data \<Rightarrow> rsrv_state \<Rightarrow> u64 \<Rightarrow> addr exec option" where
  "find_vrd g s vaddr =
     (let heap_start = get_heap_base g; heap_end = heap_start + get_heap_size g - 1 in
      find_vrd_from heap_start heap_end (vrds s) vaddr (g_vrdl s))"

partial_function (option) alloc_addr_from :: "(addr \<Rightarrow> vrd_t) \<Rightarrow> u64 \<Rightarrow> u64 \<Rightarrow> u64 \<Rightarrow> addr \<Rightarrow> u64 exec option" where
  "alloc_addr_from h sz enclave_end addr next_vrd =
     (if next_vrd = NULL
      then if enclave_end + 1 < addr then Some (Inl Abort)
           else if (enclave_end + 1) - addr \<ge> sz then Some (Inr addr) else Some (Inr 0)
      else if addr < start_addr (h next_vrd) \<and> start_addr (h next_vrd) - addr \<ge> sz then Some (Inr addr)
      else alloc_addr_from h sz enclave_end (start_addr (h next_vrd) + v_size (h next_vrd)) (v_next (h next_vrd)))"

definition vrd_alloc_addr :: "rsrv_globals \<Rightarrow> rsrv_state \<Rightarrow> u64 \<Rightarrow> u64 exec option" where
  "vrd_alloc_addr r s sz =
     alloc_addr_from (vrds s) sz (rsrv_mem_base r + rsrv_mem_size r - 1) (rsrv_mem_base r) (g_vrdl s)"

section \<open>Inserting and removing regions\<close>

datatype insert_place = Overlap | Insert_before addr | Insert_after addr

partial_function (option) insert_walk ::
  "(addr \<Rightarrow> vrd_t) \<Rightarrow> vrd_t \<Rightarrow> u64 \<Rightarrow> addr \<Rightarrow> addr \<Rightarrow> insert_place exec option" where
  "insert_walk h v end_addr current prev =
     (if current = NULL then Some (Inr (Insert_after prev))
      else if addrs_in_vrd (start_addr v) end_addr (h current) then Some (Inr Overlap)
      else if start_addr v + v_size v < start_addr v then Some (Inl Abort)
      else if start_addr v + v_size v - 1 < start_addr (h current) then Some (Inr (Insert_before current))
      else insert_walk h v end_addr (v_next (h current)) current)"

text \<open>
  Linking node \<open>vrd\<close> at the place found; \<open>None\<close>: the list is inconsistent there. In front of the first node the
  head pointer \<^verbatim>\<open>g_vrdl\<close> is not updated.
\<close>

definition insert_link :: "addr \<Rightarrow> insert_place \<Rightarrow> rsrv_state \<Rightarrow> rsrv_state option" where
  "insert_link vrd place s =
     (case place of
        Overlap \<Rightarrow> None
      | Insert_before current \<Rightarrow>
          let h = vrds s; prev = v_prev (h current) in
          if prev \<noteq> NULL \<and> v_next (h prev) \<noteq> current then None
          else let h = h(vrd := (h vrd)\<lparr>v_prev := prev, v_next := current\<rparr>);
                   h = (if prev \<noteq> NULL then h(prev := (h prev)\<lparr>v_next := vrd\<rparr>) else h);
                   h = h(current := (h current)\<lparr>v_prev := vrd\<rparr>) in
               Some (s\<lparr>vrds := h\<rparr>)
      | Insert_after prev \<Rightarrow>
          let h = vrds s in
          if g_vrdl s = NULL then Some (s\<lparr>vrds := h(vrd := (h vrd)\<lparr>v_prev := NULL, v_next := NULL\<rparr>), g_vrdl := vrd\<rparr>)
          else let h = h(vrd := (h vrd)\<lparr>v_next := NULL, v_prev := prev\<rparr>) in
               Some (s\<lparr>vrds := h(prev := (h prev)\<lparr>v_next := vrd\<rparr>)\<rparr>))"

text \<open>The address of the new node, or \<open>NULL\<close>; the second component is the error written, if any.\<close>

definition insert_vrd ::
  "global_data \<Rightarrow> rsrv_globals \<Rightarrow> malloc \<Rightarrow> u64 \<Rightarrow> u64 \<Rightarrow> u32 \<Rightarrow> u32 \<Rightarrow> u32 \<Rightarrow> rsrv_state \<Rightarrow>
   (addr \<times> sgx_status option \<times> rsrv_state) exec option" where
  "insert_vrd g r malloc start sz perms vrd_state pt s =
     xbind (if start = 0 then vrd_alloc_addr r s sz else Some (Inr start)) (\<lambda>addr.
       let encl_start = image_base g; encl_end = rsrv_mem_base r + rsrv_mem_size r - 1; end_addr = addr + sz - 1 in
       if addr = 0 \<or> addr < encl_start \<or> end_addr > encl_end \<or> addr > end_addr
       then Some (Inr (NULL, Some SGX_ERROR_INVALID_PARAMETER, s))
       else
         let (vrd, s) = get_vrd_refill malloc s in
         if vrd = NULL then Some (Inr (NULL, Some SGX_ERROR_OUT_OF_MEMORY, s))
         else
           let s = s\<lparr>vrds := (vrds s)(vrd := (vrds s vrd)\<lparr>v_flags := 0, v_size := sz, v_state := vrd_state,
                       page_type := pt, v_perms := perms, start_addr := addr\<rparr>)\<rparr> in
           xbind (insert_walk (vrds s) (vrds s vrd) end_addr (g_vrdl s) NULL) (\<lambda>place.
             case insert_link vrd place s of
               Some s \<Rightarrow> Some (Inr (vrd, None, s))
             | None \<Rightarrow>
                 Some (Inr (NULL, if place = Overlap then Some SGX_ERROR_INVALID_PARAMETER else None,
                            snd (free_list_put_vrd vrd s)))))"

definition remove_vrd :: "addr \<Rightarrow> rsrv_state \<Rightarrow> (bool \<times> rsrv_state) exec" where
  "remove_vrd vrd s =
     (if vrd = NULL then Inr (False, s)
      else
        let h = vrds s; p = v_prev (h vrd); n = v_next (h vrd) in
        if p \<noteq> NULL \<and> v_next (h p) \<noteq> vrd \<or> n \<noteq> NULL \<and> v_prev (h n) \<noteq> vrd then Inl Abort
        else
          let s = (if p = NULL then s\<lparr>g_vrdl := n\<rparr> else s\<lparr>vrds := h(p := (h p)\<lparr>v_next := n\<rparr>)\<rparr>);
              h = vrds s;
              s = (if n \<noteq> NULL then s\<lparr>vrds := h(n := (h n)\<lparr>v_prev := v_prev (h vrd)\<rparr>)\<rparr> else s) in
          Inr (True, snd (free_list_put_vrd vrd s)))"

section \<open>Splitting and combining regions\<close>

definition split_front :: "malloc \<Rightarrow> u64 \<Rightarrow> addr \<Rightarrow> rsrv_state \<Rightarrow> (bool \<times> rsrv_state) exec" where
  "split_front malloc start vrd s =
     (let (new_vrd, s) = get_vrd_refill malloc s in
      if new_vrd = NULL then Inr (False, s)
      else
        let h = (vrds s)(new_vrd := vrds s vrd); p = v_prev (h vrd) in
        if p \<noteq> NULL \<and> v_next (h p) \<noteq> vrd then Inl Abort
        else
          let (hd_ptr, h) = (if p = NULL then (new_vrd, h) else (g_vrdl s, h(p := (h p)\<lparr>v_next := new_vrd\<rparr>)));
              h = h(new_vrd := (h new_vrd)\<lparr>v_prev := v_prev (h vrd), v_next := vrd\<rparr>);
              h = h(vrd := (h vrd)\<lparr>v_prev := new_vrd\<rparr>);
              h = h(new_vrd := (h new_vrd)\<lparr>v_size := start - start_addr (h vrd)\<rparr>);
              h = h(vrd := (h vrd)\<lparr>start_addr := start, v_size := v_size (h vrd) - v_size (h new_vrd)\<rparr>) in
          Inr (True, s\<lparr>vrds := h, g_vrdl := hd_ptr\<rparr>))"

definition split_back :: "malloc \<Rightarrow> u64 \<Rightarrow> addr \<Rightarrow> rsrv_state \<Rightarrow> (bool \<times> rsrv_state) exec" where
  "split_back malloc end_addr vrd s =
     (let (new_vrd, s) = get_vrd_refill malloc s in
      if new_vrd = NULL then Inr (False, s)
      else
        let h = (vrds s)(new_vrd := vrds s vrd); n = v_next (h vrd) in
        if n \<noteq> NULL \<and> v_prev (h n) \<noteq> vrd then Inl Abort
        else
          let h = (if n \<noteq> NULL then h(n := (h n)\<lparr>v_prev := new_vrd\<rparr>) else h);
              h = h(new_vrd := (h new_vrd)\<lparr>v_next := v_next (h vrd), v_prev := vrd\<rparr>);
              h = h(vrd := (h vrd)\<lparr>v_next := new_vrd\<rparr>);
              h = h(new_vrd := (h new_vrd)\<lparr>v_size := start_addr (h vrd) + v_size (h vrd) - 1 - end_addr,
                                           start_addr := end_addr + 1\<rparr>);
              h = h(vrd := (h vrd)\<lparr>v_size := v_size (h vrd) - v_size (h new_vrd)\<rparr>) in
          Inr (True, s\<lparr>vrds := h\<rparr>))"

definition split_vrds_if_needed :: "global_data \<Rightarrow> malloc \<Rightarrow> u64 \<Rightarrow> u64 \<Rightarrow> rsrv_state \<Rightarrow> (bool \<times> rsrv_state) exec option" where
  "split_vrds_if_needed g malloc start end_addr s =
     xbind (find_vrd g s start) (\<lambda>vrd.
       if vrd = NULL \<or> start > end_addr then Some (Inr (False, s))
       else xbind (Some (if start_addr (vrds s vrd) < start then split_front malloc start vrd s else Inr (True, s))) (\<lambda>(ok, s).
         if \<not> ok then Some (Inr (False, s))
         else xbind (find_vrd g s end_addr) (\<lambda>vrd.
           if vrd = NULL then Some (Inr (False, s))
           else Some (if end_addr < start_addr (vrds s vrd) + v_size (vrds s vrd) - 1
                      then split_back malloc end_addr vrd s else Inr (True, s)))))"

text \<open>Contiguous regions with the same attributes.\<close>

definition can_combine :: "vrd_t \<Rightarrow> vrd_t \<Rightarrow> bool" where
  "can_combine v w \<longleftrightarrow>
     start_addr v + v_size v = start_addr w \<and> v_perms v = v_perms w \<and> v_flags v = v_flags w \<and>
     page_type v = page_type w \<and> v_state v = v_state w"

text \<open>Node \<open>w\<close>, which follows \<open>v\<close>, is merged into \<open>v\<close> and put on the free list.\<close>

definition absorb_next :: "addr \<Rightarrow> addr \<Rightarrow> rsrv_state \<Rightarrow> rsrv_state" where
  "absorb_next v w s =
     (let h = vrds s;
          h = h(v := (h v)\<lparr>v_size := v_size (h v) + v_size (h w), v_next := v_next (h w)\<rparr>);
          n = v_next (h v);
          h = (if n \<noteq> NULL then h(n := (h n)\<lparr>v_prev := v\<rparr>) else h) in
      snd (free_list_put_vrd w (s\<lparr>vrds := h\<rparr>)))"

partial_function (option) combine_loop :: "u64 \<Rightarrow> addr \<Rightarrow> u64 \<Rightarrow> rsrv_state \<Rightarrow> (addr \<times> rsrv_state) option" where
  "combine_loop end_addr vrd addr s =
     (if vrd \<noteq> NULL \<and> addr < end_addr
      then let v = vrds s vrd; next_addr = start_addr v + v_size v; n = v_next v; prev = v_prev v in
           combine_loop end_addr n next_addr
             (if prev \<noteq> NULL \<and> can_combine (vrds s prev) v then absorb_next prev vrd s else s)
      else Some (vrd, s))"

definition combine_vrds :: "global_data \<Rightarrow> malloc \<Rightarrow> u64 \<Rightarrow> u64 \<Rightarrow> rsrv_state \<Rightarrow> rsrv_state exec option" where
  "combine_vrds g malloc start end_addr s =
     xbind (find_vrd g s start) (\<lambda>vrd.
       map_option (\<lambda>(vrd, s).
           let s = (if vrd \<noteq> NULL \<and> v_next (vrds s vrd) \<noteq> NULL \<and> can_combine (vrds s vrd) (vrds s (v_next (vrds s vrd)))
                    then absorb_next vrd (v_next (vrds s vrd)) s else s) in
           Inr (free_list_check_level malloc s))
         (combine_loop end_addr vrd start s))"

section \<open>Operations on all regions of a range\<close>

partial_function (option) check_vrds :: "global_data \<Rightarrow> (vrd_t \<Rightarrow> bool) \<Rightarrow> u64 \<Rightarrow> u64 \<Rightarrow> rsrv_state \<Rightarrow> bool exec option" where
  "check_vrds g ok addr end_addr s =
     (if addr < end_addr
      then case find_vrd g s addr of
             None \<Rightarrow> None
           | Some (Inl f) \<Rightarrow> Some (Inl f)
           | Some (Inr vrd) \<Rightarrow>
               if vrd = NULL \<or> \<not> ok (vrds s vrd) then Some (Inr False)
               else check_vrds g ok (start_addr (vrds s vrd) + v_size (vrds s vrd)) end_addr s
      else Some (Inr True))"

definition check_vrds_states :: "global_data \<Rightarrow> u64 \<Rightarrow> u64 \<Rightarrow> u32 \<Rightarrow> u32 \<Rightarrow> rsrv_state \<Rightarrow> bool exec option" where
  "check_vrds_states g start end_addr state_0 state_1 s =
     check_vrds g (\<lambda>v. v_state v = state_0 \<or> v_state v = state_1) start end_addr s"

definition check_vrds_state :: "global_data \<Rightarrow> u64 \<Rightarrow> u64 \<Rightarrow> u32 \<Rightarrow> rsrv_state \<Rightarrow> bool exec option" where
  "check_vrds_state g start end_addr state s = check_vrds_states g start end_addr state state s"

definition check_vrds_not_state :: "global_data \<Rightarrow> u64 \<Rightarrow> u64 \<Rightarrow> u32 \<Rightarrow> rsrv_state \<Rightarrow> bool exec option" where
  "check_vrds_not_state g start end_addr state s = check_vrds g (\<lambda>v. v_state v \<noteq> state) start end_addr s"

definition check_vrds_pagetypes :: "global_data \<Rightarrow> u64 \<Rightarrow> u64 \<Rightarrow> u32 \<Rightarrow> u32 \<Rightarrow> rsrv_state \<Rightarrow> bool exec option" where
  "check_vrds_pagetypes g start end_addr pt_0 pt_1 s =
     check_vrds g (\<lambda>v. page_type v = pt_0 \<or> page_type v = pt_1) start end_addr s"

definition check_vrds_pagetype :: "global_data \<Rightarrow> u64 \<Rightarrow> u64 \<Rightarrow> u32 \<Rightarrow> rsrv_state \<Rightarrow> bool exec option" where
  "check_vrds_pagetype g start end_addr pt s = check_vrds_pagetypes g start end_addr pt pt s"

definition pe_needed :: "u32 \<Rightarrow> u32 \<Rightarrow> bool" where
  "pe_needed old new \<longleftrightarrow> old < new \<or> old = SGX_PAGE_EXECUTE_READ \<and> new = SGX_PAGE_READWRITE"

definition pr_needed :: "u32 \<Rightarrow> u32 \<Rightarrow> bool" where
  "pr_needed old new \<longleftrightarrow>
     old > new \<or> old = SGX_PAGE_READWRITE \<and> new = SGX_PAGE_EXECUTE_READ \<or>
     old > SGX_PAGE_READWRITE \<and> new < SGX_PAGE_EXECUTE_READ \<or>
     old < SGX_PAGE_EXECUTE_READ \<and> new > SGX_PAGE_READWRITE"

partial_function (option) pr_pe_loop ::
  "global_data \<Rightarrow> u64 \<Rightarrow> u64 \<Rightarrow> u32 \<Rightarrow> bool \<Rightarrow> bool \<Rightarrow> rsrv_state \<Rightarrow> (bool \<times> bool) option exec option" where
  "pr_pe_loop g addr end_addr new_perms pr pe s =
     (if addr < end_addr
      then case find_vrd g s addr of
             None \<Rightarrow> None
           | Some (Inl f) \<Rightarrow> Some (Inl f)
           | Some (Inr vrd) \<Rightarrow>
               if vrd = NULL \<or> \<not> (v_state (vrds s vrd) = VRD_STATE_COMMITTED \<or> v_state (vrds s vrd) = VRD_STATE_COMMITTED_SYSTEM)
               then Some (Inr None)
               else pr_pe_loop g (start_addr (vrds s vrd) + v_size (vrds s vrd)) end_addr new_perms
                      (pr \<or> pr_needed (v_perms (vrds s vrd)) new_perms) (pe \<or> pe_needed (v_perms (vrds s vrd)) new_perms) s
      else Some (Inr (Some (pr, pe))))"

definition check_vrds_pr_pe_needed :: "global_data \<Rightarrow> u64 \<Rightarrow> u64 \<Rightarrow> u32 \<Rightarrow> rsrv_state \<Rightarrow> (bool \<times> bool) option exec option" where
  "check_vrds_pr_pe_needed g start end_addr new_perms s = pr_pe_loop g start end_addr new_perms False False s"

partial_function (option) update_vrds ::
  "global_data \<Rightarrow> (vrd_t \<Rightarrow> vrd_t) \<Rightarrow> u64 \<Rightarrow> u64 \<Rightarrow> rsrv_state \<Rightarrow> (bool \<times> rsrv_state) exec option" where
  "update_vrds g upd addr end_addr s =
     (if addr < end_addr
      then case find_vrd g s addr of
             None \<Rightarrow> None
           | Some (Inl f) \<Rightarrow> Some (Inl f)
           | Some (Inr vrd) \<Rightarrow>
               if vrd = NULL then Some (Inr (False, s))
               else let s = s\<lparr>vrds := (vrds s)(vrd := upd (vrds s vrd))\<rparr> in
                    update_vrds g upd (start_addr (vrds s vrd) + v_size (vrds s vrd)) end_addr s
      else Some (Inr (True, s)))"

definition set_vrds_state :: "global_data \<Rightarrow> malloc \<Rightarrow> u64 \<Rightarrow> u64 \<Rightarrow> u32 \<Rightarrow> rsrv_state \<Rightarrow> (bool \<times> rsrv_state) exec option" where
  "set_vrds_state g malloc start end_addr new_state s =
     xbind (split_vrds_if_needed g malloc start end_addr s) (\<lambda>(ok, s).
       if \<not> ok then Some (Inr (False, s)) else update_vrds g (\<lambda>v. v\<lparr>v_state := new_state\<rparr>) start end_addr s)"

definition set_vrds_perms :: "global_data \<Rightarrow> malloc \<Rightarrow> u64 \<Rightarrow> u64 \<Rightarrow> u32 \<Rightarrow> rsrv_state \<Rightarrow> (bool \<times> rsrv_state) exec option" where
  "set_vrds_perms g malloc start end_addr new_perms s =
     xbind (split_vrds_if_needed g malloc start end_addr s) (\<lambda>(ok, s).
       if \<not> ok then Some (Inr (False, s)) else update_vrds g (\<lambda>v. v\<lparr>v_perms := new_perms\<rparr>) start end_addr s)"

text \<open>The new value of the caller's variable, which keeps \<open>perms\<close> when no region has the address.\<close>

definition get_vrds_perms :: "global_data \<Rightarrow> u64 \<Rightarrow> u32 \<Rightarrow> rsrv_state \<Rightarrow> u32 exec option" where
  "get_vrds_perms g start perms s =
     xbind (find_vrd g s start) (\<lambda>vrd. Some (Inr (if vrd \<noteq> NULL then v_perms (vrds s vrd) else perms)))"

partial_function (option) free_vrds :: "global_data \<Rightarrow> u64 \<Rightarrow> u64 \<Rightarrow> rsrv_state \<Rightarrow> (bool \<times> rsrv_state) exec option" where
  "free_vrds g addr end_addr s =
     (if addr < end_addr
      then case find_vrd g s addr of
             None \<Rightarrow> None
           | Some (Inl f) \<Rightarrow> Some (Inl f)
           | Some (Inr vrd) \<Rightarrow>
               if vrd = NULL then Some (Inr (False, s))
               else let addr = start_addr (vrds s vrd) + v_size (vrds s vrd) in
                    if addr < start_addr (vrds s vrd) then Some (Inl Abort)
                    else (case remove_vrd vrd s of
                            Inl f \<Rightarrow> Some (Inl f)
                          | Inr (_, s) \<Rightarrow> free_vrds g addr end_addr s)
      else Some (Inr (True, s)))"

end
