(* ===== verification/Vrd_List.thy ===== *)
theory Vrd_List
  imports Rsrv_Vrd
begin

text \<open>
  The data structure of the region descriptors: the doubly linked list is related to the list of its nodes,
  the free list to a chain, and the regions in order to a map from addresses to attributes. The
  invariant, and what fetching, returning, linking and unlinking a node do to it.
\<close>

section \<open>Doubly linked segments\<close>

text \<open>
  \<open>dseg h pr p xs q l\<close>: from \<open>p\<close> the next pointers visit \<open>xs\<close> and then reach \<open>q\<close>; the previous pointers lead
  back from each node to the one before it, from the first to \<open>pr\<close>; \<open>l\<close> is the last node (\<open>pr\<close> if there is none).
\<close>

fun dseg :: "(addr \<Rightarrow> vrd_t) \<Rightarrow> addr \<Rightarrow> addr \<Rightarrow> addr list \<Rightarrow> addr \<Rightarrow> addr \<Rightarrow> bool" where
  "dseg h pr p [] q l \<longleftrightarrow> p = q \<and> pr = l"
| "dseg h pr p (x # xs) q l \<longleftrightarrow> p = x \<and> x \<noteq> NULL \<and> v_prev (h x) = pr \<and> dseg h x (v_next (h x)) xs q l"

lemma dseg_append:
  "dseg h pr p (xs @ ys) q l \<longleftrightarrow> (\<exists>m n. dseg h pr p xs m n \<and> dseg h n m ys q l)"
  by (induction xs arbitrary: pr p) auto

lemma dseg_nonnull: "dseg h pr p xs q l \<Longrightarrow> NULL \<notin> set xs"
  by (induction xs arbitrary: pr p) auto

lemma dseg_last: "dseg h pr p xs q l \<Longrightarrow> l = (if xs = [] then pr else last xs)"
  by (induction xs arbitrary: pr p) auto

lemma dseg_first: "dseg h pr p xs q l \<Longrightarrow> p = (if xs = [] then q else hd xs)"
  by (cases xs) auto

lemma dseg_cong:
  "(\<And>x. x \<in> set xs \<Longrightarrow> v_next (h' x) = v_next (h x) \<and> v_prev (h' x) = v_prev (h x)) \<Longrightarrow>
   dseg h' pr p xs q l = dseg h pr p xs q l"
  by (induction xs arbitrary: pr p) auto

text \<open>Only the next pointer of the last node changes.\<close>

lemma dseg_set_end:
  "dseg h pr p xs q l \<Longrightarrow> xs \<noteq> [] \<Longrightarrow> distinct xs \<Longrightarrow>
   (\<forall>x \<in> set xs. v_prev (h' x) = v_prev (h x)) \<Longrightarrow>
   (\<forall>x \<in> set xs. x \<noteq> last xs \<longrightarrow> v_next (h' x) = v_next (h x)) \<Longrightarrow> v_next (h' (last xs)) = q' \<Longrightarrow>
   dseg h' pr p xs q' l"
proof (induction xs arbitrary: pr p)
  case (Cons x xs)
  show ?case
  proof (cases "xs = []")
    case True
    with Cons.prems show ?thesis by auto
  next
    case False
    then have "last xs \<in> set xs" by simp
    with Cons.prems(3) have "x \<noteq> last xs" by auto
    with Cons.prems False have "v_next (h' x) = v_next (h x)" "v_prev (h' x) = v_prev (h x)" by simp_all
    moreover have "dseg h' x (v_next (h x)) xs q' l"
      using Cons.prems False by (intro Cons.IH) simp_all
    ultimately show ?thesis using Cons.prems(1) by simp
  qed
qed simp

text \<open>Only the previous pointer of the first node changes.\<close>

lemma dseg_set_start:
  "dseg h pr p xs q l \<Longrightarrow> distinct xs \<Longrightarrow>
   (\<forall>x \<in> set xs. v_next (h' x) = v_next (h x)) \<Longrightarrow>
   (\<forall>x \<in> set xs. x \<noteq> hd xs \<longrightarrow> v_prev (h' x) = v_prev (h x)) \<Longrightarrow> (xs \<noteq> [] \<longrightarrow> v_prev (h' (hd xs)) = pr') \<Longrightarrow>
   dseg h' pr' p xs q (if xs = [] then pr' else l)"
proof (cases xs)
  case (Cons y ys)
  assume a: "dseg h pr p xs q l" "distinct xs" "\<forall>x \<in> set xs. v_next (h' x) = v_next (h x)"
    "\<forall>x \<in> set xs. x \<noteq> hd xs \<longrightarrow> v_prev (h' x) = v_prev (h x)" "xs \<noteq> [] \<longrightarrow> v_prev (h' (hd xs)) = pr'"
  have "dseg h' y (v_next (h y)) ys q l = dseg h y (v_next (h y)) ys q l"
    using a Cons by (intro dseg_cong) auto
  with a Cons show ?thesis by simp
qed simp

text \<open>A list seen from one of its nodes.\<close>

lemma dseg_node:
  "dseg h pr p (us @ x # vs) q l \<longleftrightarrow>
   dseg h pr p us x (v_prev (h x)) \<and> x \<noteq> NULL \<and> dseg h x (v_next (h x)) vs q l"
  by (auto simp: dseg_append)

section \<open>The invariant\<close>

definition in_heap :: "global_data \<Rightarrow> addr \<Rightarrow> bool" where
  "in_heap g x \<longleftrightarrow>
     \<not> (x < get_heap_base g \<or> x > get_heap_base g + get_heap_size g - 1 - sizeof_vrd)"

text \<open>
  What is assumed of \<^verbatim>\<open>malloc\<close>: a block it hands out is in the heap and not in use; and the heap has room for
  fewer than \<open>2 ^ 32\<close> nodes. \<open>in_heap\<close> is the check of the code itself, which leaves out blocks that start in the
  last 48 bytes of the heap.
\<close>

definition malloc_ok :: "global_data \<Rightarrow> malloc \<Rightarrow> bool" where
  "malloc_ok g malloc \<longleftrightarrow>
     (\<forall>k blocks. malloc k blocks = NULL \<or>
        in_heap g (malloc k blocks) \<and> malloc k blocks \<notin> set blocks \<and> length blocks < 2 ^ 32 - 1)"

definition region_ok :: "vrd_t \<Rightarrow> bool" where
  "region_ok v \<longleftrightarrow> v_size v \<noteq> 0 \<and> unat (start_addr v) + unat (v_size v) < 2 ^ 64"

definition before :: "vrd_t \<Rightarrow> vrd_t \<Rightarrow> bool" where
  "before v w \<longleftrightarrow> unat (start_addr v) + unat (v_size v) \<le> unat (start_addr w)"

definition regions_ok :: "vrd_t list \<Rightarrow> bool" where
  "regions_ok rs \<longleftrightarrow> sorted_wrt before rs \<and> (\<forall>v \<in> set rs. region_ok v)"

text \<open>The regions of a list of nodes, without the pointers.\<close>

definition data :: "vrd_t \<Rightarrow> vrd_t" where
  "data v = v\<lparr>v_next := NULL, v_prev := NULL\<rparr>"

definition regs :: "(addr \<Rightarrow> vrd_t) \<Rightarrow> addr list \<Rightarrow> vrd_t list" where
  "regs h ps = map (\<lambda>x. data (h x)) ps"

lemma data_simps [simp]:
  "start_addr (data v) = start_addr v" "v_size (data v) = v_size v" "v_flags (data v) = v_flags v"
  "v_state (data v) = v_state v" "v_perms (data v) = v_perms v" "page_type (data v) = page_type v"
  "data (data v) = data v" "data (v\<lparr>v_next := x\<rparr>) = data v" "data (v\<lparr>v_prev := x\<rparr>) = data v"
  by (simp_all add: data_def)

lemma regs_simps [simp]:
  "regs h [] = []" "regs h (x # xs) = data (h x) # regs h xs" "regs h (xs @ ys) = regs h xs @ regs h ys"
  by (simp_all add: regs_def)

lemma regs_cong: "(\<And>x. x \<in> set xs \<Longrightarrow> data (h' x) = data (h x)) \<Longrightarrow> regs h' xs = regs h xs"
  by (simp add: regs_def)

text \<open>\<open>ps\<close> are the nodes of the list, \<open>fs\<close> those of the free list, \<open>ds\<close> nodes in the hands of an operation.\<close>

definition vrdl_inv :: "global_data \<Rightarrow> rsrv_state \<Rightarrow> addr list \<Rightarrow> addr list \<Rightarrow> addr list \<Rightarrow> bool" where
  "vrdl_inv g s ps fs ds \<longleftrightarrow>
     (\<exists>l. dseg (vrds s) NULL (g_vrdl s) ps NULL l) \<and>
     chain (\<lambda>x. v_next (vrds s x)) (g_vrdl_free_list s) fs \<and>
     unat (g_vrdl_free_list_count s) = length fs \<and>
     distinct (ps @ fs @ ds) \<and> set (ps @ fs @ ds) \<subseteq> set (live s) \<and> NULL \<notin> set (live s) \<and>
     length (live s) < 2 ^ 32 \<and> (\<forall>x \<in> set (live s). in_heap g x) \<and>
     regions_ok (regs (vrds s) ps)"

text \<open>The globals that the list operations do not touch.\<close>

definition api_state :: "rsrv_state \<Rightarrow> bool \<times> bool \<times> u64 \<times> u64 \<times> int" where
  "api_state s = (g_vrdl_mutex s, g_first_alloc s, rsrv_mem_committed s, g_peak_rsrv_mem_committed s, errno s)"

text \<open>A change of the free list and of detached nodes only.\<close>

definition same_list :: "addr list \<Rightarrow> rsrv_state \<Rightarrow> rsrv_state \<Rightarrow> bool" where
  "same_list xs s s' \<longleftrightarrow> g_vrdl s' = g_vrdl s \<and> (\<forall>x \<in> set xs. vrds s' x = vrds s x) \<and> api_state s' = api_state s"

lemma same_list_refl [simp]: "same_list xs s s"
  by (simp add: same_list_def)

lemma same_list_trans: "same_list xs s s' \<Longrightarrow> same_list xs s' s'' \<Longrightarrow> same_list xs s s''"
  by (auto simp: same_list_def)

lemma vrdl_inv_nonnull: "vrdl_inv g s ps fs ds \<Longrightarrow> NULL \<notin> set ps \<and> NULL \<notin> set fs \<and> NULL \<notin> set ds"
  by (auto simp: vrdl_inv_def)

section \<open>The free list\<close>

lemma free_list_get_inv:
  assumes "vrdl_inv g s ps fs ds" "free_list_get_vrd s = (x, s')"
  shows "(x = NULL \<longleftrightarrow> fs = []) \<and> (fs = [] \<longrightarrow> s' = s) \<and>
    (fs \<noteq> [] \<longrightarrow> x = hd fs \<and> vrdl_inv g s' ps (tl fs) (x # ds)) \<and> same_list (ps @ ds) s s' \<and>
    vrds s' = vrds s"
proof (cases fs)
  case Nil
  with assms show ?thesis by (auto simp: vrdl_inv_def free_list_get_vrd_def unat_eq_0)
next
  case (Cons y ys)
  with assms(1) have c: "unat (g_vrdl_free_list_count s) = Suc (length ys)" "g_vrdl_free_list s = y" "y \<noteq> NULL"
    by (auto simp: vrdl_inv_def)
  then have nz: "g_vrdl_free_list_count s \<noteq> 0" by auto
  then have "unat (g_vrdl_free_list_count s - 1) = length ys" using c by (simp add: unat_minus_one)
  with assms c nz Cons show ?thesis
    by (auto simp: free_list_get_vrd_def vrdl_inv_def same_list_def api_state_def)
qed

lemma free_list_put_inv:
  assumes "vrdl_inv g s ps fs (d # ds)"
  shows "fst (free_list_put_vrd d s) \<and> vrdl_inv g (snd (free_list_put_vrd d s)) ps (d # fs) ds \<and>
    same_list (ps @ ds) s (snd (free_list_put_vrd d s))"
proof -
  have d: "d \<noteq> NULL" "d \<notin> set ps" "d \<notin> set fs" "d \<notin> set ds" "distinct (ps @ (d # fs) @ ds)"
    using assms by (auto simp: vrdl_inv_def)
  have "card (set (ps @ fs @ d # ds)) \<le> card (set (live s))"
    using assms by (intro card_mono) (auto simp: vrdl_inv_def)
  moreover have "card (set (ps @ fs @ d # ds)) = length (ps @ fs @ d # ds)"
    using assms by (intro distinct_card) (simp add: vrdl_inv_def)
  ultimately have "length fs + 1 < 2 ^ 32"
    using assms card_length [of "live s"] by (simp add: vrdl_inv_def)
  then have c: "unat (g_vrdl_free_list_count s + 1) = Suc (length fs)"
    using assms unat_add_lem [of "g_vrdl_free_list_count s" 1] by (simp add: vrdl_inv_def)
  let ?h = "\<lambda>v. (vrds s)(d := v)"
  have l: "dseg (?h v) NULL p ps NULL l = dseg (vrds s) NULL p ps NULL l" for v p l
    using d by (intro dseg_cong) auto
  have ch: "chain (\<lambda>x. v_next (if x = d then v else vrds s x)) p fs = chain (\<lambda>x. v_next (vrds s x)) p fs" for v p
    using d by (intro chain_cong) auto
  have m: "regs (?h v) ps = regs (vrds s) ps" for v using d by (intro regs_cong) auto
  show ?thesis
    using assms d c by (auto simp: free_list_put_vrd_def vrdl_inv_def same_list_def api_state_def l ch m)
qed

lemma malloc_vrd_inv:
  assumes "vrdl_inv g s ps fs ds" "malloc_ok g malloc" "malloc_vrd malloc s = (x, s')"
  shows "(if x = NULL then vrdl_inv g s' ps fs ds else vrdl_inv g s' ps fs (x # ds)) \<and> same_list (ps @ ds) s s' \<and>
    g_vrdl_free_list_count s' = g_vrdl_free_list_count s"
proof -
  have x: "x = NULL \<or> in_heap g x \<and> x \<notin> set (live s) \<and> length (live s) < 2 ^ 32 - 1"
    using assms(2,3) unfolding malloc_ok_def malloc_vrd_def Let_def by auto
  have s': "s' = s\<lparr>mallocs := Suc (mallocs s), live := (if x = NULL then live s else x # live s)\<rparr>"
    using assms(3) by (auto simp: malloc_vrd_def Let_def)
  from assms(1) x show ?thesis
    unfolding s' by (auto simp: vrdl_inv_def same_list_def api_state_def)
qed

lemma free_vrd_inv:
  assumes "vrdl_inv g s ps fs (d # ds)"
  shows "vrdl_inv g (free_vrd d s) ps fs ds \<and> same_list (ps @ ds) s (free_vrd d s)"
proof -
  have "length (removeAll d (live s)) \<le> length (live s)" by (simp add: removeAll_filter_not_eq)
  also have "\<dots> < 2 ^ 32" using assms by (simp add: vrdl_inv_def)
  finally show ?thesis using assms by (auto simp: vrdl_inv_def free_vrd_def same_list_def api_state_def)
qed

lemma free_list_fill_inv:
  assumes "vrdl_inv g s ps fs ds" "malloc_ok g malloc"
  shows "\<exists>fs'. vrdl_inv g (snd (free_list_fill malloc target s)) ps fs' ds \<and>
    same_list (ps @ ds) s (snd (free_list_fill malloc target s)) \<and>
    (fst (free_list_fill malloc target s) \<longrightarrow> unat target \<le> length fs')"
  using assms
proof (induction malloc target s arbitrary: fs rule: free_list_fill.induct)
  case (1 malloc target s)
  show ?case
  proof (cases "g_vrdl_free_list_count s < target")
    case False
    with 1 show ?thesis
      by (subst (1 2 3) free_list_fill.simps) (auto simp: vrdl_inv_def word_less_nat_alt not_less)
  next
    case True
    obtain x s1 where m: "malloc_vrd malloc s = (x, s1)" by fastforce
    note mi = malloc_vrd_inv [OF 1(2,3) m]
    show ?thesis
    proof (cases "x = NULL")
      case x: True
      have "free_list_fill malloc target s = (False, s1)"
        using True m x by (subst free_list_fill.simps) (simp add: free_list_put_vrd_def)
      with mi x show ?thesis by auto
    next
      case x: False
      obtain s2 where p: "free_list_put_vrd x s1 = (True, s2)"
        using x by (simp add: free_list_put_vrd_def)
      from mi x have "vrdl_inv g s1 ps fs (x # ds)" "same_list (ps @ ds) s s1" by simp_all
      with free_list_put_inv [OF this(1)] p have s2: "vrdl_inv g s2 ps (x # fs) ds" "same_list (ps @ ds) s s2"
        using same_list_trans [of "ps @ ds" s s1 s2] by simp_all
      have "free_list_fill malloc target s = free_list_fill malloc target s2"
        using True m p by (subst free_list_fill.simps) simp
      with 1(1) [OF True m [symmetric] refl p [symmetric] refl _ s2(1) 1(3)] show ?thesis
        using same_list_trans [OF s2(2)] by auto
    qed
  qed
qed

lemma free_list_drain_inv:
  assumes "vrdl_inv g s ps fs ds"
  shows "\<exists>fs'. vrdl_inv g (free_list_drain target s) ps fs' ds \<and> same_list (ps @ ds) s (free_list_drain target s)"
  using assms
proof (induction target s arbitrary: fs rule: free_list_drain.induct)
  case (1 target s)
  show ?case
  proof (cases "g_vrdl_free_list_count s > target")
    case False
    with 1 show ?thesis by (subst (1 2) free_list_drain.simps) auto
  next
    case True
    obtain x s1 where m: "free_list_get_vrd s = (x, s1)" by fastforce
    note gi = free_list_get_inv [OF 1(2) m]
    show ?thesis
    proof (cases "x = NULL")
      case x: True
      then have "free_list_drain target s = s"
        using True m gi by (subst free_list_drain.simps) simp
      with 1(2) show ?thesis by auto
    next
      case x: False
      then have "vrdl_inv g s1 ps (tl fs) (x # ds)" "same_list (ps @ ds) s s1" using gi by auto
      then have s2: "vrdl_inv g (free_vrd x s1) ps (tl fs) ds" "same_list (ps @ ds) s (free_vrd x s1)"
        using free_vrd_inv same_list_trans by blast+
      have "free_list_drain target s = free_list_drain target (free_vrd x s1)"
        using True m x by (subst free_list_drain.simps) simp
      with 1(1) [OF True m [symmetric] refl x s2(1)] show ?thesis
        using same_list_trans [OF s2(2)] by auto
    qed
  qed
qed

lemma free_list_check_level_inv:
  assumes "vrdl_inv g s ps fs ds" "malloc_ok g malloc"
  shows "\<exists>fs'. vrdl_inv g (free_list_check_level malloc s) ps fs' ds \<and> same_list (ps @ ds) s (free_list_check_level malloc s)"
proof -
  obtain fs1 where f: "vrdl_inv g (snd (free_list_fill malloc VRDL_FREELIST_ALLOC_TARGET s)) ps fs1 ds"
    "same_list (ps @ ds) s (snd (free_list_fill malloc VRDL_FREELIST_ALLOC_TARGET s))"
    using free_list_fill_inv [OF assms] by blast
  with free_list_drain_inv [OF f(1), of VRDL_FREELIST_ALLOC_TARGET] assms(1) show ?thesis
    unfolding free_list_check_level_def by (auto intro: same_list_trans)
qed

lemma get_vrd_refill_inv:
  assumes "vrdl_inv g s ps fs ds" "malloc_ok g malloc" "get_vrd_refill malloc s = (x, s')"
  shows "\<exists>fs'. vrdl_inv g s' ps fs' (if x = NULL then ds else x # ds) \<and> same_list (ps @ ds) s s'"
proof -
  obtain y s1 where y: "free_list_get_vrd s = (y, s1)" by fastforce
  note yi = free_list_get_inv [OF assms(1) y]
  show ?thesis
  proof (cases "y = NULL")
    case False
    with yi y assms(3) show ?thesis by (auto simp: get_vrd_refill_def)
  next
    case True
    with yi have s1: "s1 = s" by simp
    obtain fs2 where c: "vrdl_inv g (free_list_check_level malloc s) ps fs2 ds" "same_list (ps @ ds) s (free_list_check_level malloc s)"
      using free_list_check_level_inv [OF assms(1,2)] by blast
    have "free_list_get_vrd (free_list_check_level malloc s) = (x, s')"
      using assms(3) y True s1 by (simp add: get_vrd_refill_def)
    note zi = free_list_get_inv [OF c(1) this]
    show ?thesis
    proof (cases "x = NULL")
      case True
      with zi c show ?thesis by auto
    next
      case False
      with zi have "vrdl_inv g s' ps (tl fs2) (x # ds)" "same_list (ps @ ds) (free_list_check_level malloc s) s'" by auto
      with False same_list_trans [OF c(2)] show ?thesis by auto
    qed
  qed
qed

section \<open>Looking up regions\<close>

lemma find_vrd_from_spec:
  assumes "dseg h pr p ps NULL l" "\<forall>x \<in> set ps. \<not> (x < lo \<or> x > hi - sizeof_vrd)"
  shows "find_vrd_from lo hi h a p =
    Some (Inr (case find (\<lambda>x. addr_in_vrd a (h x)) ps of None \<Rightarrow> NULL | Some x \<Rightarrow> x))"
  using assms
proof (induction ps arbitrary: pr p)
  case Nil
  then show ?case by (simp add: find_vrd_from.simps)
next
  case (Cons x xs)
  then show ?case by (subst find_vrd_from.simps) (auto simp: not_less)
qed

lemma find_vrd_spec:
  assumes "vrdl_inv g s ps fs ds"
  shows "find_vrd g s a = Some (Inr (case find (\<lambda>x. addr_in_vrd a (vrds s x)) ps of None \<Rightarrow> NULL | Some x \<Rightarrow> x))"
proof -
  from assms obtain l where "dseg (vrds s) NULL (g_vrdl s) ps NULL l" by (auto simp: vrdl_inv_def)
  moreover have "\<forall>x \<in> set ps. in_heap g x" using assms by (auto simp: vrdl_inv_def)
  ultimately show ?thesis using find_vrd_from_spec by (simp add: find_vrd_def Let_def in_heap_def)
qed

section \<open>Linking and unlinking a node\<close>

abbreviation lastq :: "addr list \<Rightarrow> addr" where "lastq us \<equiv> (if us = [] then NULL else last us)"
abbreviation hdq :: "addr list \<Rightarrow> addr" where "hdq vs \<equiv> (if vs = [] then NULL else hd vs)"

lemma dseg_split:
  assumes "dseg h NULL p (us @ vs) NULL l"
  shows "dseg h NULL p us (hdq vs) (lastq us) \<and> dseg h (lastq us) (hdq vs) vs NULL l"
proof -
  obtain m n where mn: "dseg h NULL p us m n" "dseg h n m vs NULL l" using assms dseg_append by blast
  with dseg_last [OF mn(1)] dseg_first [OF mn(2)] show ?thesis by simp
qed

lemma dseg_ptrs:
  assumes "dseg h NULL p (us @ x # vs) NULL l"
  shows "v_prev (h x) = lastq us" "v_next (h x) = hdq vs"
proof -
  have s: "dseg h NULL p us x (v_prev (h x))" "dseg h x (v_next (h x)) vs NULL l"
    using assms by (simp_all add: dseg_node)
  show "v_prev (h x) = lastq us" using dseg_last [OF s(1)] by simp
  show "v_next (h x) = hdq vs" using dseg_first [OF s(2)] by simp
qed

text \<open>Nodes \<open>xs\<close> of store \<open>h\<close> keep their pointers, except the next pointer of \<open>a\<close> and the previous pointer of \<open>b\<close>.\<close>

definition keep_ptrs :: "(addr \<Rightarrow> vrd_t) \<Rightarrow> (addr \<Rightarrow> vrd_t) \<Rightarrow> addr list \<Rightarrow> addr \<Rightarrow> addr \<Rightarrow> bool" where
  "keep_ptrs h h' xs a b \<longleftrightarrow>
     (\<forall>x \<in> set xs. (x \<noteq> a \<longrightarrow> v_next (h' x) = v_next (h x)) \<and> (x \<noteq> b \<longrightarrow> v_prev (h' x) = v_prev (h x)))"

lemma dseg_set_front:
  assumes "dseg h NULL p us q l" "distinct us" "NULL \<notin> set us" "keep_ptrs h h' us (lastq us) b" "b \<notin> set us"
    and "us \<noteq> [] \<Longrightarrow> v_next (h' (last us)) = q'"
  shows "dseg h' NULL (if us = [] then q' else p) us q' (lastq us)"
proof (cases "us = []")
  case False
  have "\<forall>x \<in> set us. v_prev (h' x) = v_prev (h x)" "\<forall>x \<in> set us. x \<noteq> last us \<longrightarrow> v_next (h' x) = v_next (h x)"
    using assms(4,5) False by (auto simp: keep_ptrs_def)
  from dseg_set_end [OF assms(1) False assms(2) this assms(6)] False have "dseg h' NULL p us q' l" by blast
  with False dseg_last [OF this] show ?thesis by simp
qed simp

lemma dseg_set_back:
  assumes "dseg h pr q vs NULL l" "distinct vs" "NULL \<notin> set vs" "keep_ptrs h h' vs a (hdq vs)" "a \<notin> set vs"
    and "vs \<noteq> [] \<Longrightarrow> v_prev (h' (hd vs)) = pr'"
  shows "\<exists>l'. dseg h' pr' (hdq vs) vs NULL l'"
proof -
  have "\<forall>x \<in> set vs. v_next (h' x) = v_next (h x)" "\<forall>x \<in> set vs. x \<noteq> hd vs \<longrightarrow> v_prev (h' x) = v_prev (h x)"
    using assms(4,5) by (cases vs; auto simp: keep_ptrs_def)+
  from dseg_set_start [OF assms(1,2) this] assms(6) have "dseg h' pr' q vs NULL (if vs = [] then pr' else l)" by blast
  with dseg_first [OF this] show ?thesis by auto
qed

lemma dseg_insert:
  assumes "dseg h NULL p (us @ vs) NULL l" "distinct (us @ vs)" "NULL \<notin> set (us @ vs)" "n \<noteq> NULL"
    and "keep_ptrs h h' (us @ vs) (lastq us) (hdq vs)"
    and "v_prev (h' n) = lastq us" "v_next (h' n) = hdq vs"
    and "us \<noteq> [] \<Longrightarrow> v_next (h' (last us)) = n" "vs \<noteq> [] \<Longrightarrow> v_prev (h' (hd vs)) = n"
  shows "\<exists>l'. dseg h' NULL (if us = [] then n else p) (us @ n # vs) NULL l'"
proof -
  note s = dseg_split [OF assms(1)]
  have k: "keep_ptrs h h' us (lastq us) (hdq vs)" "keep_ptrs h h' vs (lastq us) (hdq vs)"
    using assms(5) by (simp_all add: keep_ptrs_def)
  have d: "hdq vs \<notin> set us" "lastq us \<notin> set vs" "distinct us" "distinct vs" "NULL \<notin> set us" "NULL \<notin> set vs"
    using assms(2,3) by (auto dest: hd_in_set last_in_set)
  have "dseg h' NULL (if us = [] then n else p) us n (lastq us)"
    using dseg_set_front [OF conjunct1 [OF s] d(3,5) k(1) d(1)] assms(8) by blast
  moreover obtain l' where "dseg h' n (hdq vs) vs NULL l'"
    using dseg_set_back [OF conjunct2 [OF s] d(4,6) k(2) d(2)] assms(9) by blast
  ultimately show ?thesis using assms(4,6,7) by (auto simp: dseg_node)
qed

lemma dseg_delete:
  assumes "dseg h NULL p (us @ n # vs) NULL l" "distinct (us @ n # vs)" "NULL \<notin> set (us @ vs)"
    and "keep_ptrs h h' (us @ vs) (lastq us) (hdq vs)"
    and "us \<noteq> [] \<Longrightarrow> v_next (h' (last us)) = hdq vs" "vs \<noteq> [] \<Longrightarrow> v_prev (h' (hd vs)) = lastq us"
  shows "\<exists>l'. dseg h' NULL (if us = [] then hdq vs else p) (us @ vs) NULL l'"
proof -
  have s: "dseg h NULL p us n (v_prev (h n))" "dseg h n (v_next (h n)) vs NULL l"
    using assms(1) by (simp_all add: dseg_node)
  have k: "keep_ptrs h h' us (lastq us) (hdq vs)" "keep_ptrs h h' vs (lastq us) (hdq vs)"
    using assms(4) by (simp_all add: keep_ptrs_def)
  have d: "hdq vs \<notin> set us" "lastq us \<notin> set vs" "distinct us" "distinct vs" "NULL \<notin> set us" "NULL \<notin> set vs"
    using assms(2,3) by (auto dest: hd_in_set last_in_set)
  have "dseg h' NULL (if us = [] then hdq vs else p) us (hdq vs) (lastq us)"
    using dseg_set_front [OF s(1) d(3,5) k(1) d(1)] assms(5) by blast
  moreover obtain l' where "dseg h' (lastq us) (hdq vs) vs NULL l'"
    using dseg_set_back [OF s(2) d(4,6) k(2) d(2)] assms(6) by blast
  ultimately show ?thesis unfolding dseg_append by blast
qed

text \<open>The invariant of a state in which only nodes outside the free list changed.\<close>

lemma vrdl_inv_relink:
  assumes "vrdl_inv g s ps fs ds" "s' = s\<lparr>vrds := h', g_vrdl := p'\<rparr>"
    and "\<exists>l. dseg h' NULL p' ps' NULL l" "\<And>x. x \<in> set fs \<Longrightarrow> h' x = vrds s x"
    and "distinct (ps' @ ds')" "set (ps' @ ds') \<subseteq> set (ps @ ds)" "regions_ok (regs h' ps')"
  shows "vrdl_inv g s' ps' fs ds' \<and> api_state s' = api_state s"
proof -
  have "chain (\<lambda>x. v_next (h' x)) (g_vrdl_free_list s) fs"
    using assms(1,4) chain_cong [of fs "\<lambda>x. v_next (h' x)" "\<lambda>x. v_next (vrds s x)"] by (simp add: vrdl_inv_def)
  moreover have "distinct (ps' @ fs @ ds')" "set (ps' @ fs @ ds') \<subseteq> set (live s)"
    using assms(1,5,6) by (auto simp: vrdl_inv_def)
  ultimately show ?thesis using assms(1,2,3,7) by (simp add: vrdl_inv_def api_state_def)
qed

section \<open>Regions as a map\<close>

definition attrs :: "vrd_t \<Rightarrow> u32 \<times> u32 \<times> u32 \<times> u32" where
  "attrs v = (v_flags v, v_state v, v_perms v, page_type v)"

definition covers :: "vrd_t \<Rightarrow> u64 \<Rightarrow> bool" where
  "covers v a \<longleftrightarrow> unat (start_addr v) \<le> unat a \<and> unat a < unat (start_addr v) + unat (v_size v)"

fun rmap :: "vrd_t list \<Rightarrow> u64 \<Rightarrow> (u32 \<times> u32 \<times> u32 \<times> u32) option" where
  "rmap [] a = None"
| "rmap (v # vs) a = (if covers v a then Some (attrs v) else rmap vs a)"

lemma data_attrs [simp]: "attrs (data v) = attrs v" "covers (data v) = covers v"
  "addr_in_vrd a (data v) = addr_in_vrd a v"
  by (simp_all add: attrs_def covers_def addr_in_vrd_def fun_eq_iff)

lemma unat_region_end: "region_ok v \<Longrightarrow> unat (start_addr v + v_size v) = unat (start_addr v) + unat (v_size v)"
  using unat_add_lem [of "start_addr v" "v_size v"] by (simp add: region_ok_def)

lemma addr_in_vrd_covers: "region_ok v \<Longrightarrow> addr_in_vrd a v = covers v a"
  by (simp add: addr_in_vrd_def covers_def word_le_nat_alt word_less_nat_alt unat_region_end)

lemma rmap_append: "rmap (xs @ ys) a = (case rmap xs a of None \<Rightarrow> rmap ys a | Some t \<Rightarrow> Some t)"
  by (induction xs) auto

lemma rmap_None: "rmap xs a = None \<longleftrightarrow> (\<forall>v \<in> set xs. \<not> covers v a)"
  by (induction xs) auto

lemma regions_ok_mid:
  "regions_ok (us @ v # vs) \<longleftrightarrow>
   regions_ok (us @ vs) \<and> region_ok v \<and> (\<forall>u \<in> set us. before u v) \<and> (\<forall>w \<in> set vs. before v w)"
  by (auto simp: regions_ok_def sorted_wrt_append)

lemma before_trans: "before u v \<Longrightarrow> before v w \<Longrightarrow> before u w"
  by (simp add: before_def)

lemma rmap_mid:
  assumes "regions_ok (us @ v # vs)"
  shows "rmap (us @ v # vs) a = (if covers v a then Some (attrs v) else rmap (us @ vs) a)"
    and "covers v a \<Longrightarrow> rmap (us @ vs) a = None"
proof -
  have d: "covers v a \<Longrightarrow> \<not> covers u a" if "u \<in> set (us @ vs)" for u
    using assms that by (auto simp: regions_ok_mid before_def covers_def)
  then show "covers v a \<Longrightarrow> rmap (us @ vs) a = None" by (simp add: rmap_None)
  show "rmap (us @ v # vs) a = (if covers v a then Some (attrs v) else rmap (us @ vs) a)"
    using d rmap_None [of us a] by (auto simp: rmap_append)
qed

text \<open>A region cut in two at an address inside it.\<close>

definition cut_lo :: "u64 \<Rightarrow> vrd_t \<Rightarrow> vrd_t" where
  "cut_lo at v = v\<lparr>v_size := at - start_addr v\<rparr>"

definition cut_hi :: "u64 \<Rightarrow> vrd_t \<Rightarrow> vrd_t" where
  "cut_hi at v = v\<lparr>start_addr := at, v_size := v_size v - (at - start_addr v)\<rparr>"

lemma cut_region:
  assumes "region_ok v" "covers v at" "at \<noteq> start_addr v"
  shows "region_ok (cut_lo at v)" "region_ok (cut_hi at v)" "before (cut_lo at v) (cut_hi at v)"
    "before w (cut_lo at v) = before w v" "before (cut_hi at v) w = before v w"
    "covers (cut_lo at v) a \<or> covers (cut_hi at v) a \<longleftrightarrow> covers v a"
    "attrs (cut_lo at v) = attrs v" "attrs (cut_hi at v) = attrs v"
    "before v w \<Longrightarrow> before (cut_lo at v) w" "before w v \<Longrightarrow> before w (cut_hi at v)"
proof -
  have at: "unat (start_addr v) < unat at" "unat at < unat (start_addr v) + unat (v_size v)"
    using assms(2,3) by (auto simp: covers_def le_less word_unat_eq_iff)
  then have u: "unat (at - start_addr v) = unat at - unat (start_addr v)"
    by (simp add: unat_sub word_le_nat_alt)
  with at have u2: "unat (v_size v - (at - start_addr v)) = unat (start_addr v) + unat (v_size v) - unat at"
    by (subst unat_sub) (auto simp: word_le_nat_alt)
  have nz: "at - start_addr v \<noteq> 0" "v_size v - (at - start_addr v) \<noteq> 0"
    using u u2 at by (auto simp flip: unat_eq_0)
  note defs = cut_lo_def cut_hi_def region_ok_def before_def covers_def attrs_def
  show "region_ok (cut_lo at v)" "region_ok (cut_hi at v)" "before (cut_lo at v) (cut_hi at v)"
    "before w (cut_lo at v) = before w v" "before (cut_hi at v) w = before v w"
    "covers (cut_lo at v) a \<or> covers (cut_hi at v) a \<longleftrightarrow> covers v a"
    "attrs (cut_lo at v) = attrs v" "attrs (cut_hi at v) = attrs v"
    "before v w \<Longrightarrow> before (cut_lo at v) w" "before w v \<Longrightarrow> before w (cut_hi at v)"
    using assms(1) at u u2 nz by (simp_all add: defs) linarith+
qed

lemma cut_regions:
  assumes "regions_ok (us @ v # vs)" "covers v at" "at \<noteq> start_addr v"
  shows "regions_ok (us @ cut_lo at v # cut_hi at v # vs)"
    "rmap (us @ cut_lo at v # cut_hi at v # vs) a = rmap (us @ v # vs) a"
proof -
  have v: "region_ok v" "\<forall>u \<in> set us. before u v" "\<forall>w \<in> set vs. before v w" "regions_ok (us @ vs)"
    using assms(1) by (simp_all add: regions_ok_mid)
  note c = cut_region [OF v(1) assms(2,3)]
  have "regions_ok (us @ cut_hi at v # vs)" using v c by (simp add: regions_ok_mid)
  then show "regions_ok (us @ cut_lo at v # cut_hi at v # vs)"
    using v c regions_ok_mid [of us "cut_lo at v" "cut_hi at v # vs"] by simp
  show "rmap (us @ cut_lo at v # cut_hi at v # vs) a = rmap (us @ v # vs) a"
    using c(6) [of a] c(7,8) by (auto simp: rmap_append split: option.split)
qed

section \<open>Splitting\<close>

text \<open>The nodes of a list keep what they hold when a node is fetched.\<close>

lemma same_list_regs: "same_list (ps @ ds) s s' \<Longrightarrow> regs (vrds s') ps = regs (vrds s) ps"
  by (rule regs_cong) (simp add: same_list_def)

lemma inv_node:
  assumes "vrdl_inv g s (us @ v # vs) fs ds"
  shows "v_prev (vrds s v) = lastq us" "v_next (vrds s v) = hdq vs" "v \<noteq> NULL" "v \<notin> set us" "v \<notin> set vs"
    "distinct us" "distinct vs" "set us \<inter> set vs = {}" "v \<notin> set fs" "set us \<inter> set fs = {}" "set vs \<inter> set fs = {}"
    "NULL \<notin> set us" "NULL \<notin> set vs"
proof -
  from assms obtain l where "dseg (vrds s) NULL (g_vrdl s) (us @ v # vs) NULL l" by (auto simp: vrdl_inv_def)
  note d = this dseg_ptrs [OF this] dseg_nonnull [OF this]
  then show "v_prev (vrds s v) = lastq us" "v_next (vrds s v) = hdq vs" "v \<noteq> NULL" "NULL \<notin> set us" "NULL \<notin> set vs"
    by auto
  show "v \<notin> set us" "v \<notin> set vs" "distinct us" "distinct vs" "set us \<inter> set vs = {}"
    "v \<notin> set fs" "set us \<inter> set fs = {}" "set vs \<inter> set fs = {}"
    using assms by (auto simp: vrdl_inv_def)
qed

lemma inv_neighbours:
  assumes "vrdl_inv g s (us @ v # vs) fs ds"
  shows "us \<noteq> [] \<Longrightarrow> v_next (vrds s (last us)) = v" "vs \<noteq> [] \<Longrightarrow> v_prev (vrds s (hd vs)) = v"
proof -
  from assms obtain l where d: "dseg (vrds s) NULL (g_vrdl s) (us @ v # vs) NULL l" by (auto simp: vrdl_inv_def)
  show "v_next (vrds s (last us)) = v" if "us \<noteq> []"
  proof -
    have "us @ v # vs = butlast us @ last us # v # vs"
      using append_butlast_last_id [OF that] by (metis append.assoc append_Cons append_Nil)
    with d have "dseg (vrds s) NULL (g_vrdl s) (butlast us @ last us # v # vs) NULL l" by simp
    from dseg_ptrs(2) [OF this] show ?thesis by simp
  qed
  show "v_prev (vrds s (hd vs)) = v" if "vs \<noteq> []"
  proof -
    from that d have "dseg (vrds s) NULL (g_vrdl s) ((us @ [v]) @ hd vs # tl vs) NULL l" by simp
    from dseg_ptrs(1) [OF this] show ?thesis by simp
  qed
qed

text \<open>A node linked between \<open>us\<close> and \<open>vs\<close>: what the store must look like for the list to be \<open>us @ n # vs\<close>.\<close>

definition linked_between :: "(addr \<Rightarrow> vrd_t) \<Rightarrow> (addr \<Rightarrow> vrd_t) \<Rightarrow> addr list \<Rightarrow> addr \<Rightarrow> addr list \<Rightarrow> bool" where
  "linked_between h h' us n vs \<longleftrightarrow>
     keep_ptrs h h' (us @ vs) (lastq us) (hdq vs) \<and> v_prev (h' n) = lastq us \<and> v_next (h' n) = hdq vs \<and>
     (us \<noteq> [] \<longrightarrow> v_next (h' (last us)) = n) \<and> (vs \<noteq> [] \<longrightarrow> v_prev (h' (hd vs)) = n)"

lemma vrdl_inv_insert:
  assumes "vrdl_inv g s (us @ vs) fs (n # ds)" "linked_between (vrds s) h' us n vs"
    and "\<And>x. x \<in> set fs \<Longrightarrow> h' x = vrds s x" "regions_ok (regs h' (us @ n # vs))"
    and "p' = (if us = [] then n else g_vrdl s)"
  shows "vrdl_inv g (s\<lparr>vrds := h', g_vrdl := p'\<rparr>) (us @ n # vs) fs ds \<and>
    api_state (s\<lparr>vrds := h', g_vrdl := p'\<rparr>) = api_state s"
proof -
  from assms(1) obtain l where "dseg (vrds s) NULL (g_vrdl s) (us @ vs) NULL l" by (auto simp: vrdl_inv_def)
  moreover have "distinct (us @ vs)" "NULL \<notin> set (us @ vs)" "n \<noteq> NULL"
    using assms(1) vrdl_inv_nonnull [OF assms(1)] by (auto simp: vrdl_inv_def)
  ultimately have l: "\<exists>l. dseg h' NULL p' (us @ n # vs) NULL l"
    using dseg_insert assms(2,5) unfolding linked_between_def by blast
  have "distinct ((us @ n # vs) @ ds)" "set ((us @ n # vs) @ ds) \<subseteq> set ((us @ vs) @ n # ds)"
    using assms(1) by (auto simp: vrdl_inv_def)
  from vrdl_inv_relink [OF assms(1) refl l assms(3) this assms(4)] show ?thesis .
qed

lemma vrdl_inv_delete:
  assumes "vrdl_inv g s (us @ n # vs) fs ds" "keep_ptrs (vrds s) h' (us @ vs) (lastq us) (hdq vs)"
    and "us \<noteq> [] \<Longrightarrow> v_next (h' (last us)) = hdq vs" "vs \<noteq> [] \<Longrightarrow> v_prev (h' (hd vs)) = lastq us"
    and "\<And>x. x \<in> set fs \<Longrightarrow> h' x = vrds s x" "regions_ok (regs h' (us @ vs))"
    and "p' = (if us = [] then hdq vs else g_vrdl s)"
  shows "vrdl_inv g (s\<lparr>vrds := h', g_vrdl := p'\<rparr>) (us @ vs) fs (n # ds) \<and>
    api_state (s\<lparr>vrds := h', g_vrdl := p'\<rparr>) = api_state s"
proof -
  from assms(1) obtain l where "dseg (vrds s) NULL (g_vrdl s) (us @ n # vs) NULL l" by (auto simp: vrdl_inv_def)
  moreover have "distinct (us @ n # vs)" "NULL \<notin> set (us @ vs)"
    using assms(1) vrdl_inv_nonnull [OF assms(1)] by (auto simp: vrdl_inv_def)
  ultimately have l: "\<exists>l. dseg h' NULL p' (us @ vs) NULL l"
    using dseg_delete assms(2,3,4,7) by blast
  have "distinct ((us @ vs) @ n # ds)" "set ((us @ vs) @ n # ds) \<subseteq> set ((us @ n # vs) @ ds)"
    using assms(1) by (auto simp: vrdl_inv_def)
  from vrdl_inv_relink [OF assms(1) refl l assms(5) this assms(6)] show ?thesis .
qed

lemma split_front_inv:
  assumes inv: "vrdl_inv g s (us @ v # vs) fs []" and m: "malloc_ok g malloc"
    and at: "covers (vrds s v) at" "at \<noteq> start_addr (vrds s v)"
  shows "\<exists>ok s' ps' fs'. split_front malloc at v s = Inr (ok, s') \<and> vrdl_inv g s' ps' fs' [] \<and> api_state s' = api_state s \<and>
    (if ok then (\<exists>n. ps' = us @ n # v # vs) \<and>
        regs (vrds s') ps' = regs (vrds s) us @ cut_lo at (data (vrds s v)) # cut_hi at (data (vrds s v)) # regs (vrds s) vs
     else ps' = us @ v # vs \<and> regs (vrds s') ps' = regs (vrds s) ps')"
proof -
  obtain n s1 where r: "get_vrd_refill malloc s = (n, s1)" by fastforce
  obtain fs1 where i1: "vrdl_inv g s1 (us @ v # vs) fs1 (if n = NULL then [] else [n])" "same_list (us @ v # vs) s s1"
    using get_vrd_refill_inv [OF inv m r] by auto
  have reg: "regs (vrds s1) us = regs (vrds s) us" "regs (vrds s1) vs = regs (vrds s) vs" "api_state s1 = api_state s"
      "vrds s1 v = vrds s v"
    using i1(2) by (auto simp: same_list_def intro: regs_cong)
  show ?thesis
  proof (cases "n = NULL")
    case True
    with r i1(1) reg show ?thesis
      by (intro exI [of _ False] exI [of _ s1] exI [of _ "us @ v # vs"] exI [of _ fs1]) (simp add: split_front_def)
  next
    case False
    then have i2: "vrdl_inv g s1 (us @ v # vs) fs1 [n]" using i1(1) by simp
    note nd = inv_node [OF i2] inv_neighbours [OF i2]
    have n: "n \<noteq> v" "n \<notin> set us" "n \<notin> set vs" "n \<notin> set fs1" using i2 by (auto simp: vrdl_inv_def)
    have lu: "us \<noteq> [] \<Longrightarrow> last us \<noteq> n" "us \<noteq> [] \<Longrightarrow> last us \<noteq> v" "us \<noteq> [] \<Longrightarrow> last us \<noteq> NULL"
        "us \<noteq> [] \<Longrightarrow> last us \<notin> set vs" "us \<noteq> [] \<Longrightarrow> last us \<notin> set fs1"
      using last_in_set [of us] n(2) nd(4,8,10,12) by (metis disjoint_iff)+
    let ?o = "vrds s1"
    let ?h = "?o(n := (?o v)\<lparr>v_prev := lastq us, v_next := v, v_size := at - start_addr (?o v)\<rparr>,
      v := (?o v)\<lparr>v_prev := n, start_addr := at, v_size := v_size (?o v) - (at - start_addr (?o v))\<rparr>)"
    define h' where "h' = (if us = [] then ?h else ?h(last us := (?o (last us))\<lparr>v_next := n\<rparr>))"
    have h': "h' n = (?o v)\<lparr>v_prev := lastq us, v_next := v, v_size := at - start_addr (?o v)\<rparr>"
      "h' v = (?o v)\<lparr>v_prev := n, start_addr := at, v_size := v_size (?o v) - (at - start_addr (?o v))\<rparr>"
      "us \<noteq> [] \<Longrightarrow> h' (last us) = (?o (last us))\<lparr>v_next := n\<rparr>"
      "\<And>x. x \<noteq> n \<Longrightarrow> x \<noteq> v \<Longrightarrow> us = [] \<or> x \<noteq> last us \<Longrightarrow> h' x = ?o x"
      using n(1) lu(1,2) by (auto simp: h'_def split: if_splits)
    have old: "data (h' x) = data (?o x) \<and> v_prev (h' x) = v_prev (?o x) \<and>
        (us = [] \<or> x \<noteq> last us \<longrightarrow> v_next (h' x) = v_next (?o x))" if "x \<in> set us \<or> x \<in> set vs" for x
    proof (cases "us \<noteq> [] \<and> x = last us")
      case True
      with h'(3) show ?thesis by simp
    next
      case False
      have "x \<noteq> n" "x \<noteq> v" using that n(2,3) nd(4,5) by auto
      with h'(4) False have "h' x = ?o x" by blast
      then show ?thesis by simp
    qed
    have sf: "split_front malloc at v s = Inr (True, s1\<lparr>vrds := h', g_vrdl := if us = [] then n else g_vrdl s1\<rparr>)"
      using False n(1) lu(1-3) nd(1) nd(14)
      by (cases "us = []") (simp_all add: split_front_def r Let_def h'_def fun_upd_twist)
    have lb: "linked_between ?o h' us n (v # vs)"
      using h'(1-3) old lu(2) nd(12,13) by (cases "us = []") (auto simp: linked_between_def keep_ptrs_def)
    have rg: "regs h' (us @ n # v # vs) =
        regs (vrds s) us @ cut_lo at (data (vrds s v)) # cut_hi at (data (vrds s v)) # regs (vrds s) vs"
    proof -
      have "regs h' us = regs ?o us" "regs h' vs = regs ?o vs" using old by (auto intro: regs_cong)
      moreover have "data (h' n) = cut_lo at (data (vrds s v))" "data (h' v) = cut_hi at (data (vrds s v))"
        using h'(1,2) by (simp_all add: reg cut_lo_def cut_hi_def data_def)
      ultimately show ?thesis using reg by simp
    qed
    have ok: "regions_ok (regs (vrds s) us @ data (vrds s v) # regs (vrds s) vs)" using inv by (simp add: vrdl_inv_def)
    have "regions_ok (regs h' (us @ n # v # vs))"
      unfolding rg using cut_regions(1) [OF ok] at by simp
    moreover have "h' x = ?o x" if "x \<in> set fs1" for x
      using that n(4) nd(9) lu(5) by (intro h'(4)) auto
    ultimately have "vrdl_inv g (s1\<lparr>vrds := h', g_vrdl := if us = [] then n else g_vrdl s1\<rparr>) (us @ n # v # vs) fs1 [] \<and>
        api_state (s1\<lparr>vrds := h', g_vrdl := if us = [] then n else g_vrdl s1\<rparr>) = api_state s1"
      using vrdl_inv_insert [OF i2 lb] by blast
    then show ?thesis
      using sf rg reg(3)
      by (intro exI [of _ True] exI [of _ "s1\<lparr>vrds := h', g_vrdl := if us = [] then n else g_vrdl s1\<rparr>"]
          exI [of _ "us @ n # v # vs"] exI [of _ fs1]) simp
  qed
qed

lemma split_back_inv:
  assumes inv: "vrdl_inv g s (us @ v # vs) fs []" and m: "malloc_ok g malloc"
    and at: "covers (vrds s v) (e + 1)" "e + 1 \<noteq> start_addr (vrds s v)"
  shows "\<exists>ok s' ps' fs'. split_back malloc e v s = Inr (ok, s') \<and> vrdl_inv g s' ps' fs' [] \<and> api_state s' = api_state s \<and>
    (if ok then (\<exists>n. ps' = us @ v # n # vs) \<and>
        regs (vrds s') ps' = regs (vrds s) us @ cut_lo (e + 1) (data (vrds s v)) # cut_hi (e + 1) (data (vrds s v)) # regs (vrds s) vs
     else ps' = us @ v # vs \<and> regs (vrds s') ps' = regs (vrds s) ps')"
proof -
  obtain n s1 where r: "get_vrd_refill malloc s = (n, s1)" by fastforce
  obtain fs1 where i1: "vrdl_inv g s1 (us @ v # vs) fs1 (if n = NULL then [] else [n])" "same_list (us @ v # vs) s s1"
    using get_vrd_refill_inv [OF inv m r] by auto
  have reg: "regs (vrds s1) us = regs (vrds s) us" "regs (vrds s1) vs = regs (vrds s) vs" "api_state s1 = api_state s"
      "vrds s1 v = vrds s v"
    using i1(2) by (auto simp: same_list_def intro: regs_cong)
  show ?thesis
  proof (cases "n = NULL")
    case True
    with r i1(1) reg show ?thesis
      by (intro exI [of _ False] exI [of _ s1] exI [of _ "us @ v # vs"] exI [of _ fs1]) (simp add: split_back_def)
  next
    case False
    then have i2: "vrdl_inv g s1 (us @ v # vs) fs1 [n]" using i1(1) by simp
    note nd = inv_node [OF i2] inv_neighbours [OF i2]
    have n: "n \<noteq> v" "n \<notin> set us" "n \<notin> set vs" "n \<notin> set fs1" using i2 by (auto simp: vrdl_inv_def)
    have hv: "vs \<noteq> [] \<Longrightarrow> hd vs \<noteq> n" "vs \<noteq> [] \<Longrightarrow> hd vs \<noteq> v" "vs \<noteq> [] \<Longrightarrow> hd vs \<noteq> NULL"
        "vs \<noteq> [] \<Longrightarrow> hd vs \<notin> set us" "vs \<noteq> [] \<Longrightarrow> hd vs \<notin> set fs1"
      using hd_in_set [of vs] n(3) nd(5,8,11,13) by (metis disjoint_iff)+
    let ?o = "vrds s1"
    let ?z = "start_addr (?o v) + v_size (?o v) - 1 - e"
    let ?h = "?o(n := (?o v)\<lparr>v_next := hdq vs, v_prev := v, v_size := ?z, start_addr := e + 1\<rparr>,
      v := (?o v)\<lparr>v_next := n, v_size := v_size (?o v) - ?z\<rparr>)"
    define h' where "h' = (if vs = [] then ?h else ?h(hd vs := (?o (hd vs))\<lparr>v_prev := n\<rparr>))"
    have h': "h' n = (?o v)\<lparr>v_next := hdq vs, v_prev := v, v_size := ?z, start_addr := e + 1\<rparr>"
      "h' v = (?o v)\<lparr>v_next := n, v_size := v_size (?o v) - ?z\<rparr>"
      "vs \<noteq> [] \<Longrightarrow> h' (hd vs) = (?o (hd vs))\<lparr>v_prev := n\<rparr>"
      "\<And>x. x \<noteq> n \<Longrightarrow> x \<noteq> v \<Longrightarrow> vs = [] \<or> x \<noteq> hd vs \<Longrightarrow> h' x = ?o x"
      using n(1) hv(1,2) by (auto simp: h'_def split: if_splits)
    have old: "data (h' x) = data (?o x) \<and> v_next (h' x) = v_next (?o x) \<and>
        (vs = [] \<or> x \<noteq> hd vs \<longrightarrow> v_prev (h' x) = v_prev (?o x))" if "x \<in> set us \<or> x \<in> set vs" for x
    proof (cases "vs \<noteq> [] \<and> x = hd vs")
      case True
      with h'(3) show ?thesis by simp
    next
      case False
      have "x \<noteq> n" "x \<noteq> v" using that n(2,3) nd(4,5) by auto
      with h'(4) False have "h' x = ?o x" by blast
      then show ?thesis by simp
    qed
    have sf: "split_back malloc e v s = Inr (True, s1\<lparr>vrds := h', g_vrdl := g_vrdl s1\<rparr>)"
      using False n(1) hv(1-3) nd(2) nd(15)
      by (cases "vs = []") (simp_all add: split_back_def r Let_def h'_def fun_upd_twist)
    have lb: "linked_between ?o h' (us @ [v]) n vs"
      using h'(1-3) old hv(2) nd(12,13) by (cases "vs = []") (auto simp: linked_between_def keep_ptrs_def)
    have rg: "regs h' ((us @ [v]) @ n # vs) =
        regs (vrds s) us @ cut_lo (e + 1) (data (vrds s v)) # cut_hi (e + 1) (data (vrds s v)) # regs (vrds s) vs"
    proof -
      have "regs h' us = regs ?o us" "regs h' vs = regs ?o vs" using old by (auto intro: regs_cong)
      moreover have "data (h' n) = cut_hi (e + 1) (data (vrds s v))" "data (h' v) = cut_lo (e + 1) (data (vrds s v))"
        using h'(1,2) by (simp_all add: reg cut_lo_def cut_hi_def data_def algebra_simps)
      ultimately show ?thesis using reg by simp
    qed
    have ok: "regions_ok (regs (vrds s) us @ data (vrds s v) # regs (vrds s) vs)" using inv by (simp add: vrdl_inv_def)
    have "regions_ok (regs h' ((us @ [v]) @ n # vs))"
      unfolding rg using cut_regions(1) [OF ok] at by simp
    moreover have "h' x = ?o x" if "x \<in> set fs1" for x
      using that n(4) nd(9) hv(5) by (intro h'(4)) auto
    moreover have "vrdl_inv g s1 ((us @ [v]) @ vs) fs1 [n]" using i2 by simp
    ultimately have "vrdl_inv g (s1\<lparr>vrds := h', g_vrdl := g_vrdl s1\<rparr>) ((us @ [v]) @ n # vs) fs1 [] \<and>
        api_state (s1\<lparr>vrds := h', g_vrdl := g_vrdl s1\<rparr>) = api_state s1"
      using vrdl_inv_insert [OF _ lb] by simp
    then show ?thesis
      using sf rg reg(3)
      by (intro exI [of _ True] exI [of _ "s1\<lparr>vrds := h', g_vrdl := g_vrdl s1\<rparr>"]
          exI [of _ "us @ v # n # vs"] exI [of _ fs1]) simp
  qed
qed

end
