(* ===== verification/Vrd_Refine.thy ===== *)
theory Vrd_Refine
  imports Vrd_List
begin

text \<open>
  Operations on region descriptors against the map from addresses to attributes: finding, splitting at the
  ends of a range and combining neighbours keep the invariant and leave the map alone.
\<close>

section \<open>Splitting at the ends of a range\<close>

lemma inv_regions: "vrdl_inv g s ps fs ds \<Longrightarrow> regions_ok (regs (vrds s) ps)"
  by (simp add: vrdl_inv_def)

lemma find_vrd_cases:
  assumes "vrdl_inv g s ps fs ds"
  shows "rmap (regs (vrds s) ps) a = None \<and> find_vrd g s a = Some (Inr NULL) \<or>
    (\<exists>us x vs. ps = us @ x # vs \<and> x \<noteq> NULL \<and> covers (vrds s x) a \<and> find_vrd g s a = Some (Inr x) \<and>
       rmap (regs (vrds s) ps) a = Some (attrs (vrds s x)))"
proof -
  have r: "region_ok (vrds s x)" if "x \<in> set ps" for x
    using inv_regions [OF assms] that unfolding regions_ok_def regs_def region_ok_def by auto
  show ?thesis
  proof (cases "find (\<lambda>x. addr_in_vrd a (vrds s x)) ps")
    case None
    then have "\<forall>v \<in> set (regs (vrds s) ps). \<not> covers v a"
      using r by (auto simp: find_None_iff addr_in_vrd_covers regs_def)
    then show ?thesis using None find_vrd_spec [OF assms] by (simp add: rmap_None)
  next
    case (Some x)
    then have x: "x \<in> set ps" "addr_in_vrd a (vrds s x)" by (auto simp: find_Some_iff)
    then obtain us vs where ps: "ps = us @ x # vs" by (auto dest: split_list)
    have c: "covers (vrds s x) a" using x r addr_in_vrd_covers by blast
    have "rmap (regs (vrds s) ps) a = Some (attrs (vrds s x))"
      using rmap_mid(1) [of "regs (vrds s) us" "data (vrds s x)" "regs (vrds s) vs" a] inv_regions [OF assms] c ps by simp
    moreover have "x \<noteq> NULL" using vrdl_inv_nonnull [OF assms] x(1) by auto
    ultimately show ?thesis using Some find_vrd_spec [OF assms] ps c by auto
  qed
qed

text \<open>No region reaches across address \<open>b\<close>.\<close>

definition boundary :: "vrd_t list \<Rightarrow> u64 \<Rightarrow> bool" where
  "boundary rs b \<longleftrightarrow> (\<forall>v \<in> set rs. covers v b \<longrightarrow> start_addr v = b)"

lemma cut_boundary:
  assumes "regions_ok (us @ v # vs)" "covers v at" "at \<noteq> start_addr v"
  shows "boundary (us @ v # vs) b \<Longrightarrow> boundary (us @ cut_lo at v # cut_hi at v # vs) b"
    "boundary (us @ cut_lo at v # cut_hi at v # vs) at"
proof -
  note c = cut_region [OF _ assms(2,3)]
  have v: "region_ok v" and dis: "\<And>u. u \<in> set us \<union> set vs \<Longrightarrow> \<not> covers u at"
    using assms(1,2) rmap_mid(2) [OF assms(1,2)] by (auto simp: regions_ok_mid rmap_None)
  have s: "start_addr (cut_lo at v) = start_addr v" "start_addr (cut_hi at v) = at"
    by (simp_all add: cut_lo_def cut_hi_def)
  have lo: "\<not> covers (cut_lo at v) at"
    using c(3) [OF v] s(2) by (auto simp: before_def covers_def)
  show "boundary (us @ cut_lo at v # cut_hi at v # vs) at"
    using dis lo s(2) by (auto simp: boundary_def)
  show "boundary (us @ cut_lo at v # cut_hi at v # vs) b" if "boundary (us @ v # vs) b"
  proof -
    have "b = at" if b: "covers (cut_hi at v) b"
    proof -
      have "covers v b" using b c(6) [OF v, of b] by simp
      with \<open>boundary (us @ v # vs) b\<close> have "start_addr v = b" by (simp add: boundary_def)
      moreover have "unat at \<le> unat b" using b s(2) by (simp add: covers_def)
      moreover have "unat (start_addr v) \<le> unat at" using assms(2) by (simp add: covers_def)
      ultimately show ?thesis by (simp add: word_unat_eq_iff)
    qed
    moreover have "start_addr v = b" if "covers (cut_lo at v) b"
      using that c(6) [OF v, of b] \<open>boundary (us @ v # vs) b\<close> by (simp add: boundary_def)
    ultimately show ?thesis using that s by (auto simp: boundary_def)
  qed
qed

text \<open>Regions made of whole pages.\<close>

definition pages_ok :: "vrd_t list \<Rightarrow> bool" where
  "pages_ok rs \<longleftrightarrow> (\<forall>v \<in> set rs. 4096 dvd unat (start_addr v) \<and> 4096 dvd unat (v_size v))"

lemma cut_pages:
  assumes "covers v at" "4096 dvd unat at" "pages_ok (us @ v # vs)"
  shows "pages_ok (us @ cut_lo at v # cut_hi at v # vs)"
proof -
  have at: "unat (start_addr v) \<le> unat at" "unat at \<le> unat (start_addr v) + unat (v_size v)"
    using assms(1) by (simp_all add: covers_def)
  then have u: "unat (at - start_addr v) = unat at - unat (start_addr v)"
    by (simp add: unat_sub word_le_nat_alt)
  with at have u2: "unat (v_size v - (at - start_addr v)) = unat (v_size v) - (unat at - unat (start_addr v))"
    by (subst unat_sub) (auto simp: word_le_nat_alt)
  with u assms(2,3) at show ?thesis by (auto simp: pages_ok_def cut_lo_def cut_hi_def intro!: dvd_diff_nat)
qed

text \<open>The last address of a region.\<close>

lemma region_last:
  assumes "region_ok v" "covers v e"
  shows "e < start_addr v + v_size v - 1 \<longleftrightarrow> unat e + 1 < unat (start_addr v) + unat (v_size v)"
    "e < start_addr v + v_size v - 1 \<Longrightarrow> covers v (e + 1)"
    "e < start_addr v + v_size v - 1 \<Longrightarrow> e + 1 \<noteq> start_addr v"
    "unat (e + 1) = unat e + 1"
proof -
  have "start_addr v + v_size v \<noteq> 0"
    using assms unat_region_end [OF assms(1)] by (auto simp: covers_def simp flip: unat_eq_0)
  then have u: "unat (start_addr v + v_size v - 1) = unat (start_addr v) + unat (v_size v) - 1"
    using unat_region_end [OF assms(1)] by (simp add: unat_minus_one)
  then show i: "e < start_addr v + v_size v - 1 \<longleftrightarrow> unat e + 1 < unat (start_addr v) + unat (v_size v)"
    by (auto simp: word_less_nat_alt)
  have "unat e + 1 < 2 ^ 64" using assms by (auto simp: region_ok_def covers_def)
  then show e: "unat (e + 1) = unat e + 1" using unat_add_lem [of e 1] by simp
  show "covers v (e + 1)" "e + 1 \<noteq> start_addr v" if "e < start_addr v + v_size v - 1"
    using that assms(2) i e by (auto simp: covers_def)
qed

lemma boundary_after:
  assumes "regions_ok (us @ v # vs)" "covers v e" "\<not> unat e + 1 < unat (start_addr v) + unat (v_size v)"
  shows "boundary (us @ v # vs) (e + 1)"
proof -
  have v: "region_ok v" using assms(1) by (simp add: regions_ok_mid)
  note e = region_last(4) [OF v assms(2)]
  show ?thesis
    using assms e by (auto simp: boundary_def regions_ok_mid before_def covers_def word_unat_eq_iff)
qed

lemma split_vrds_spec:
  assumes inv: "vrdl_inv g s ps fs []" and m: "malloc_ok g malloc"
  shows "\<exists>ok s' ps' fs'. split_vrds_if_needed g malloc a e s = Some (Inr (ok, s')) \<and> vrdl_inv g s' ps' fs' [] \<and>
    api_state s' = api_state s \<and> rmap (regs (vrds s') ps') = rmap (regs (vrds s) ps) \<and>
    (pages_ok (regs (vrds s) ps) \<and> 4096 dvd unat a \<and> 4096 dvd unat e + 1 \<longrightarrow> pages_ok (regs (vrds s') ps')) \<and>
    (ok \<longrightarrow> a \<le> e \<and> rmap (regs (vrds s) ps) a \<noteq> None \<and> rmap (regs (vrds s) ps) e \<noteq> None \<and>
       boundary (regs (vrds s') ps') a \<and> boundary (regs (vrds s') ps') (e + 1))"
proof (cases "rmap (regs (vrds s) ps) a = None \<or> e < a")
  case True
  obtain x where "find_vrd g s a = Some (Inr x)" "x = NULL \<or> e < a"
    using find_vrd_cases [OF inv, of a] True by (metis option.distinct(1))
  then have "split_vrds_if_needed g malloc a e s = Some (Inr (False, s))"
    by (simp add: split_vrds_if_needed_def)
  with inv show ?thesis by (intro exI [of _ False] exI [of _ s] exI [of _ ps] exI [of _ fs]) simp
next
  case False
  then obtain us x vs where x: "ps = us @ x # vs" "x \<noteq> NULL" "covers (vrds s x) a" "find_vrd g s a = Some (Inr x)"
    using find_vrd_cases [OF inv, of a] by auto
  have rx: "regions_ok (regs (vrds s) us @ data (vrds s x) # regs (vrds s) vs)" using inv_regions [OF inv] x(1) by simp
  have "\<exists>ok1 s1 ps1 fs1. (if start_addr (vrds s x) < a then split_front malloc a x s else Inr (True, s)) = Inr (ok1, s1) \<and>
      vrdl_inv g s1 ps1 fs1 [] \<and> api_state s1 = api_state s \<and> rmap (regs (vrds s1) ps1) = rmap (regs (vrds s) ps) \<and>
      (pages_ok (regs (vrds s) ps) \<and> 4096 dvd unat a \<longrightarrow> pages_ok (regs (vrds s1) ps1)) \<and>
      (ok1 \<longrightarrow> boundary (regs (vrds s1) ps1) a)"
  proof (cases "start_addr (vrds s x) < a")
    case True
    have i: "vrdl_inv g s (us @ x # vs) fs []" using inv x(1) by simp
    have ne: "a \<noteq> start_addr (vrds s x)" using True by auto
    from split_front_inv [OF i m x(3) ne] obtain ok1 s1 ps1 fs1
      where f: "split_front malloc a x s = Inr (ok1, s1)" "vrdl_inv g s1 ps1 fs1 []" "api_state s1 = api_state s"
        "if ok1 then regs (vrds s1) ps1 = regs (vrds s) us @ cut_lo a (data (vrds s x)) # cut_hi a (data (vrds s x)) # regs (vrds s) vs
         else regs (vrds s1) ps1 = regs (vrds s) ps"
      using x(1) by (auto split: if_splits)
    have "rmap (regs (vrds s1) ps1) = rmap (regs (vrds s) ps)"
      using f(4) cut_regions(2) [OF rx] x(1,3) ne by (auto simp: fun_eq_iff split: if_splits)
    moreover have "ok1 \<longrightarrow> boundary (regs (vrds s1) ps1) a"
      using f(4) cut_boundary(2) [OF rx, of a] x(3) ne by auto
    moreover have "pages_ok (regs (vrds s) ps) \<and> 4096 dvd unat a \<longrightarrow> pages_ok (regs (vrds s1) ps1)"
      using f(4) cut_pages [of "data (vrds s x)" a "regs (vrds s) us" "regs (vrds s) vs"] x(1,3)
      by (auto split: if_splits)
    ultimately show ?thesis using f True by auto
  next
    case F: False
    have "start_addr (vrds s x) = a"
      using F x(3) by (auto simp: covers_def word_less_nat_alt word_unat_eq_iff not_less)
    then have "boundary (regs (vrds s) ps) a"
      using rmap_mid(2) [OF rx, of a] x(1,3) by (auto simp: boundary_def rmap_None)
    with inv F show ?thesis by auto
  qed
  then obtain ok1 s1 ps1 fs1 where f1: "(if start_addr (vrds s x) < a then split_front malloc a x s else Inr (True, s)) = Inr (ok1, s1)"
    "vrdl_inv g s1 ps1 fs1 []" "api_state s1 = api_state s" "rmap (regs (vrds s1) ps1) = rmap (regs (vrds s) ps)"
    "ok1 \<Longrightarrow> boundary (regs (vrds s1) ps1) a"
    "pages_ok (regs (vrds s) ps) \<and> 4096 dvd unat a \<longrightarrow> pages_ok (regs (vrds s1) ps1)"
    by blast
  show ?thesis
  proof (cases ok1)
    case F: False
    have "split_vrds_if_needed g malloc a e s = Some (Inr (False, s1))"
      using x(2) False F by (simp only: split_vrds_if_needed_def x(4) xbind_simps f1(1)) (auto simp: not_less)
    with f1 show ?thesis by (intro exI [of _ False] exI [of _ s1] exI [of _ ps1] exI [of _ fs1]) simp
  next
    case T: True
    have step: "split_vrds_if_needed g malloc a e s =
      xbind (find_vrd g s1 e) (\<lambda>vrd.
           if vrd = NULL then Some (Inr (False, s1))
           else Some (if e < start_addr (vrds s1 vrd) + v_size (vrds s1 vrd) - 1
                      then split_back malloc e vrd s1 else Inr (True, s1)))"
      using x(2) False T by (simp only: split_vrds_if_needed_def x(4) xbind_simps f1(1)) (auto simp: not_less)
    show ?thesis
    proof (cases "rmap (regs (vrds s) ps) e")
      case None
      then have "find_vrd g s1 e = Some (Inr NULL)" using find_vrd_cases [OF f1(2), of e] f1(4) by simp
      with step f1 show ?thesis by (intro exI [of _ False] exI [of _ s1] exI [of _ ps1] exI [of _ fs1]) simp
    next
      case (Some t)
      then obtain us y vs where y: "ps1 = us @ y # vs" "y \<noteq> NULL" "covers (vrds s1 y) e" "find_vrd g s1 e = Some (Inr y)"
        using find_vrd_cases [OF f1(2), of e] f1(4) by auto
      have ry: "regions_ok (regs (vrds s1) us @ data (vrds s1 y) # regs (vrds s1) vs)" using inv_regions [OF f1(2)] y(1) by simp
      have ro: "region_ok (vrds s1 y)" using ry by (simp add: regions_ok_mid region_ok_def)
      note e = region_last [OF ro y(3)]
      show ?thesis
      proof (cases "e < start_addr (vrds s1 y) + v_size (vrds s1 y) - 1")
        case True
        note c = e(2,3) [OF True]
        have i: "vrdl_inv g s1 (us @ y # vs) fs1 []" using f1(2) y(1) by simp
        from split_back_inv [OF i m c] obtain ok2 s2 ps2 fs2
          where f: "split_back malloc e y s1 = Inr (ok2, s2)" "vrdl_inv g s2 ps2 fs2 []" "api_state s2 = api_state s1"
            "if ok2 then regs (vrds s2) ps2 =
               regs (vrds s1) us @ cut_lo (e + 1) (data (vrds s1 y)) # cut_hi (e + 1) (data (vrds s1 y)) # regs (vrds s1) vs
             else regs (vrds s2) ps2 = regs (vrds s1) ps1"
          using y(1) by (auto split: if_splits)
        have "rmap (regs (vrds s2) ps2) = rmap (regs (vrds s1) ps1)"
          using f(4) cut_regions(2) [OF ry] y(1) c by (auto simp: fun_eq_iff split: if_splits)
        moreover have "ok2 \<longrightarrow> boundary (regs (vrds s2) ps2) (e + 1) \<and> boundary (regs (vrds s2) ps2) a"
          using f(4) cut_boundary [OF ry, of "e + 1"] f1(5) [OF T] y(1) c by auto
        moreover have "pages_ok (regs (vrds s1) ps1) \<and> 4096 dvd unat e + 1 \<longrightarrow> pages_ok (regs (vrds s2) ps2)"
          using f(4) cut_pages [of "data (vrds s1 y)" "e + 1" "regs (vrds s1) us" "regs (vrds s1) vs"] y(1) c(1) e(4)
          by (auto split: if_splits)
        moreover have "split_vrds_if_needed g malloc a e s = Some (Inr (ok2, s2))"
          using step y True f(1) by simp
        ultimately show ?thesis using f f1 False Some
          by (intro exI [of _ ok2] exI [of _ s2] exI [of _ ps2] exI [of _ fs2]) (simp add: not_less)
      next
        case F: False
        then have "boundary (regs (vrds s1) ps1) (e + 1)"
          using boundary_after [OF ry] e(1) y(1,3) by simp
        moreover have "split_vrds_if_needed g malloc a e s = Some (Inr (True, s1))"
          using step y F by simp
        ultimately show ?thesis using f1 False Some T
          by (intro exI [of _ True] exI [of _ s1] exI [of _ ps1] exI [of _ fs1]) (simp add: not_less)
      qed
    qed
  qed
qed

section \<open>Combining\<close>

definition merge_data :: "vrd_t \<Rightarrow> vrd_t \<Rightarrow> vrd_t" where
  "merge_data v w = v\<lparr>v_size := v_size v + v_size w\<rparr>"

lemma merge_regions:
  assumes "regions_ok (us @ v # w # vs)" "can_combine v w"
  shows "regions_ok (us @ merge_data v w # vs)" "rmap (us @ merge_data v w # vs) a = rmap (us @ v # w # vs) a"
proof -
  have v: "region_ok v" "region_ok w" "before v w" "\<forall>x \<in> set us. before x v" "\<forall>x \<in> set vs. before w x" "regions_ok (us @ vs)"
    using assms(1) by (auto simp: regions_ok_mid)
  have adj: "unat (start_addr w) = unat (start_addr v) + unat (v_size v)"
    using assms(2) unat_region_end [OF v(1)] by (simp add: can_combine_def)
  then have u: "unat (v_size v + v_size w) = unat (v_size v) + unat (v_size w)"
    using v(2) unat_add_lem [of "v_size v" "v_size w"] by (simp add: region_ok_def)
  then have "region_ok (merge_data v w)"
    using v adj by (auto simp: merge_data_def region_ok_def simp flip: unat_eq_0)
  moreover have "before x (merge_data v w) = before x v" "before (merge_data v w) x = before w x" for x
    using adj u by (simp_all add: merge_data_def before_def add.assoc)
  ultimately show "regions_ok (us @ merge_data v w # vs)" using v(4-6) by (simp add: regions_ok_mid)
  have "covers (merge_data v w) a \<longleftrightarrow> covers v a \<or> covers w a" "attrs (merge_data v w) = attrs v" "attrs w = attrs v"
    using adj u assms(2) by (auto simp: merge_data_def covers_def attrs_def can_combine_def)
  then show "rmap (us @ merge_data v w # vs) a = rmap (us @ v # w # vs) a"
    by (auto simp: rmap_append split: option.split)
qed

lemma merge_pages:
  assumes "regions_ok (us @ v # w # vs)" "can_combine v w" "pages_ok (us @ v # w # vs)"
  shows "pages_ok (us @ merge_data v w # vs)"
proof -
  have v: "region_ok v" "region_ok w" using assms(1) by (auto simp: regions_ok_mid)
  have "unat (start_addr w) = unat (start_addr v) + unat (v_size v)"
    using assms(2) unat_region_end [OF v(1)] by (simp add: can_combine_def)
  then have "unat (v_size v + v_size w) = unat (v_size v) + unat (v_size w)"
    using v(2) unat_add_lem [of "v_size v" "v_size w"] by (simp add: region_ok_def)
  with assms(3) show ?thesis by (auto simp: pages_ok_def merge_data_def intro: dvd_add)
qed

lemma absorb_next_inv:
  assumes inv: "vrdl_inv g s (us @ v # w # vs) fs []" and c: "can_combine (vrds s v) (vrds s w)"
  shows "vrdl_inv g (absorb_next v w s) (us @ v # vs) (w # fs) [] \<and> api_state (absorb_next v w s) = api_state s \<and>
    rmap (regs (vrds (absorb_next v w s)) (us @ v # vs)) = rmap (regs (vrds s) (us @ v # w # vs)) \<and>
    (pages_ok (regs (vrds s) (us @ v # w # vs)) \<longrightarrow> pages_ok (regs (vrds (absorb_next v w s)) (us @ v # vs)))"
proof -
  have inv': "vrdl_inv g s ((us @ [v]) @ w # vs) fs []" using inv by simp
  note nv = inv_node [OF inv] and nw = inv_node [OF inv'] inv_neighbours [OF inv']
  have w: "w \<noteq> v" "w \<notin> set us" "w \<notin> set vs" "v \<notin> set vs" "v \<notin> set us" using nv nw by auto
  have hv: "vs \<noteq> [] \<Longrightarrow> hd vs \<noteq> v" "vs \<noteq> [] \<Longrightarrow> hd vs \<noteq> w" "vs \<noteq> [] \<Longrightarrow> hd vs \<noteq> NULL"
      "vs \<noteq> [] \<Longrightarrow> hd vs \<notin> set us" "vs \<noteq> [] \<Longrightarrow> hd vs \<notin> set fs"
    using w nw(8,11,13) by (cases vs; auto)+
  let ?o = "vrds s"
  let ?h = "?o(v := (?o v)\<lparr>v_size := v_size (?o v) + v_size (?o w), v_next := hdq vs\<rparr>)"
  define h' where "h' = (if vs = [] then ?h else ?h(hd vs := (?o (hd vs))\<lparr>v_prev := v\<rparr>))"
  have h': "h' v = (?o v)\<lparr>v_size := v_size (?o v) + v_size (?o w), v_next := hdq vs\<rparr>"
    "vs \<noteq> [] \<Longrightarrow> h' (hd vs) = (?o (hd vs))\<lparr>v_prev := v\<rparr>"
    "\<And>x. x \<noteq> v \<Longrightarrow> vs = [] \<or> x \<noteq> hd vs \<Longrightarrow> h' x = ?o x"
    using hv(1) by (auto simp: h'_def split: if_splits)
  have ab: "absorb_next v w s = snd (free_list_put_vrd w (s\<lparr>vrds := h', g_vrdl := g_vrdl s\<rparr>))"
    using w hv nw(2) by (cases "vs = []") (simp_all add: absorb_next_def Let_def h'_def)
  have old: "data (h' x) = data (?o x) \<and> v_next (h' x) = v_next (?o x) \<and>
      (vs = [] \<or> x \<noteq> hd vs \<longrightarrow> v_prev (h' x) = v_prev (?o x))" if "x \<in> set us \<or> x \<in> set vs" for x
  proof (cases "vs \<noteq> [] \<and> x = hd vs")
    case True
    with h'(2) show ?thesis by simp
  next
    case False
    have "x \<noteq> v" using that w by auto
    with h'(3) False have "h' x = ?o x" by blast
    then show ?thesis by simp
  qed
  have k: "keep_ptrs ?o h' ((us @ [v]) @ vs) (lastq (us @ [v])) (hdq vs)"
    using old h'(1) nw(12,13) by (cases "vs = []") (auto simp: keep_ptrs_def)
  have rg: "regs h' ((us @ [v]) @ vs) = regs ?o us @ merge_data (data (?o v)) (data (?o w)) # regs ?o vs"
  proof -
    have "regs h' us = regs ?o us" "regs h' vs = regs ?o vs" using old by (auto intro: regs_cong)
    moreover have "data (h' v) = merge_data (data (?o v)) (data (?o w))"
      using h'(1) by (simp add: merge_data_def data_def)
    ultimately show ?thesis by simp
  qed
  have ok: "regions_ok (regs ?o us @ data (?o v) # data (?o w) # regs ?o vs)" using inv_regions [OF inv] by simp
  have cc: "can_combine (data (?o v)) (data (?o w))" using c by (simp add: can_combine_def)
  note mr = merge_regions [OF ok cc]
  have fs: "h' x = ?o x" if "x \<in> set fs" for x
    using that nv(9) hv(5) by (intro h'(3)) auto
  have "vrdl_inv g (s\<lparr>vrds := h', g_vrdl := g_vrdl s\<rparr>) ((us @ [v]) @ vs) fs [w] \<and>
      api_state (s\<lparr>vrds := h', g_vrdl := g_vrdl s\<rparr>) = api_state s"
    using rg mr(1) h'(1,2) by (intro vrdl_inv_delete [OF inv' k _ _ fs]) simp_all
  then have p: "vrdl_inv g (s\<lparr>vrds := h', g_vrdl := g_vrdl s\<rparr>) (us @ v # vs) fs [w]"
      "api_state (s\<lparr>vrds := h', g_vrdl := g_vrdl s\<rparr>) = api_state s" by simp_all
  note pi = free_list_put_inv [OF p(1)]
  have sl: "same_list ((us @ v # vs) @ []) (s\<lparr>vrds := h', g_vrdl := g_vrdl s\<rparr>) (absorb_next v w s)" using pi ab by simp
  then have "regs (vrds (absorb_next v w s)) (us @ v # vs) = regs h' ((us @ [v]) @ vs)"
    using same_list_regs [OF sl] by simp
  with mr(2) rg have "rmap (regs (vrds (absorb_next v w s)) (us @ v # vs)) = rmap (regs (vrds s) (us @ v # w # vs))"
    by (simp add: fun_eq_iff)
  moreover have "pages_ok (regs (vrds s) (us @ v # w # vs)) \<longrightarrow> pages_ok (regs (vrds (absorb_next v w s)) (us @ v # vs))"
    using merge_pages [OF ok cc] rg \<open>regs (vrds (absorb_next v w s)) (us @ v # vs) = regs h' ((us @ [v]) @ vs)\<close> by simp
  moreover have "api_state (absorb_next v w s) = api_state s" using sl p(2) by (simp add: same_list_def)
  ultimately show ?thesis using pi ab by simp
qed

lemma combine_loop_spec:
  assumes "vrdl_inv g s (us @ ws) fs []"
  shows "\<exists>us' ws' s' fs'. combine_loop e (hdq ws) addr s = Some (hdq ws', s') \<and> vrdl_inv g s' (us' @ ws') fs' [] \<and>
    api_state s' = api_state s \<and> rmap (regs (vrds s') (us' @ ws')) = rmap (regs (vrds s) (us @ ws)) \<and>
    (pages_ok (regs (vrds s) (us @ ws)) \<longrightarrow> pages_ok (regs (vrds s') (us' @ ws')))"
  using assms
proof (induction ws arbitrary: us s fs addr)
  case Nil
  then show ?case by (intro exI [of _ us] exI [of _ "[]"] exI [of _ s] exI [of _ fs]) (simp add: combine_loop.simps)
next
  case (Cons w ws)
  note nd = inv_node [OF Cons.prems]
  show ?case
  proof (cases "addr < e")
    case False
    with Cons.prems show ?thesis
      by (intro exI [of _ us] exI [of _ "w # ws"] exI [of _ s] exI [of _ fs]) (simp add: combine_loop.simps)
  next
    case True
    let ?s = "if lastq us \<noteq> NULL \<and> can_combine (vrds s (lastq us)) (vrds s w) then absorb_next (lastq us) w s else s"
    have step: "combine_loop e w addr s = combine_loop e (hdq ws) (start_addr (vrds s w) + v_size (vrds s w)) ?s"
      using True nd(1-3) by (subst combine_loop.simps) (simp add: Let_def)
    show ?thesis
    proof (cases "us \<noteq> [] \<and> can_combine (vrds s (last us)) (vrds s w)")
      case T: True
      then have us: "us @ w # ws = butlast us @ last us # w # ws" "us @ ws = butlast us @ last us # ws"
        using append_butlast_last_id [of us] by (metis append.assoc append_Cons append_Nil)+
      have l: "last us \<noteq> NULL" using nd(12) T by (metis last_in_set)
      have i: "vrdl_inv g s (butlast us @ last us # w # ws) fs []" using Cons.prems us(1) by simp
      from absorb_next_inv [OF i] T have a: "vrdl_inv g ?s (us @ ws) (w # fs) []" "api_state ?s = api_state s"
          "rmap (regs (vrds ?s) (us @ ws)) = rmap (regs (vrds s) (us @ w # ws))"
          "pages_ok (regs (vrds s) (us @ w # ws)) \<longrightarrow> pages_ok (regs (vrds ?s) (us @ ws))"
        using l unfolding us by simp_all
      obtain us' ws' s' fs' where r: "combine_loop e w addr s = Some (hdq ws', s')" "vrdl_inv g s' (us' @ ws') fs' []"
          "api_state s' = api_state s" "rmap (regs (vrds s') (us' @ ws')) = rmap (regs (vrds s) (us @ w # ws))"
          "pages_ok (regs (vrds s) (us @ w # ws)) \<longrightarrow> pages_ok (regs (vrds s') (us' @ ws'))"
        using Cons.IH [OF a(1), of "start_addr (vrds s w) + v_size (vrds s w)"] unfolding step a(2,3) using a(4) by blast
      then show ?thesis by (intro exI [of _ us'] exI [of _ ws'] exI [of _ s'] exI [of _ fs']) simp
    next
      case F: False
      then have s: "?s = s" by auto
      have i: "vrdl_inv g s ((us @ [w]) @ ws) fs []" using Cons.prems by simp
      from Cons.IH [OF i, of "start_addr (vrds s w) + v_size (vrds s w)"] step s show ?thesis by auto
    qed
  qed
qed

lemma combine_vrds_spec:
  assumes inv: "vrdl_inv g s ps fs []" and m: "malloc_ok g malloc"
  shows "\<exists>s' ps' fs'. combine_vrds g malloc a e s = Some (Inr s') \<and> vrdl_inv g s' ps' fs' [] \<and>
    api_state s' = api_state s \<and> rmap (regs (vrds s') ps') = rmap (regs (vrds s) ps) \<and>
    (pages_ok (regs (vrds s) ps) \<longrightarrow> pages_ok (regs (vrds s') ps'))"
proof -
  have "\<exists>us ws. ps = us @ ws \<and> find_vrd g s a = Some (Inr (hdq ws))"
    using find_vrd_cases [OF inv, of a]
  proof (elim disjE exE conjE)
    assume "find_vrd g s a = Some (Inr NULL)"
    then show ?thesis by (intro exI [of _ ps] exI [of _ "[]"]) simp
  next
    fix us x vs
    assume "ps = us @ x # vs" "find_vrd g s a = Some (Inr x)"
    then show ?thesis by (intro exI [of _ us] exI [of _ "x # vs"]) simp
  qed
  then obtain us ws where f: "ps = us @ ws" "find_vrd g s a = Some (Inr (hdq ws))" by blast
  obtain us' ws' s1 fs1 where c: "combine_loop e (hdq ws) a s = Some (hdq ws', s1)" "vrdl_inv g s1 (us' @ ws') fs1 []"
    "api_state s1 = api_state s" "rmap (regs (vrds s1) (us' @ ws')) = rmap (regs (vrds s) ps)"
    "pages_ok (regs (vrds s) ps) \<longrightarrow> pages_ok (regs (vrds s1) (us' @ ws'))"
    using combine_loop_spec [of g s us ws fs] inv f(1) by blast
  let ?v = "hdq ws'"
  define s2 where "s2 = (if ?v \<noteq> NULL \<and> v_next (vrds s1 ?v) \<noteq> NULL \<and> can_combine (vrds s1 ?v) (vrds s1 (v_next (vrds s1 ?v)))
                    then absorb_next ?v (v_next (vrds s1 ?v)) s1 else s1)"
  have "\<exists>ps2 fs2. vrdl_inv g s2 ps2 fs2 [] \<and> api_state s2 = api_state s1 \<and>
      rmap (regs (vrds s2) ps2) = rmap (regs (vrds s1) (us' @ ws')) \<and>
      (pages_ok (regs (vrds s1) (us' @ ws')) \<longrightarrow> pages_ok (regs (vrds s2) ps2))"
  proof (cases "s2 = s1")
    case True
    with c(2) show ?thesis by auto
  next
    case False
    then have d: "?v \<noteq> NULL" "v_next (vrds s1 ?v) \<noteq> NULL" "can_combine (vrds s1 ?v) (vrds s1 (v_next (vrds s1 ?v)))"
        "s2 = absorb_next ?v (v_next (vrds s1 ?v)) s1"
      by (auto simp: s2_def split: if_splits)
    then obtain v vs where ws: "ws' = v # vs" by (cases ws') auto
    have "v_next (vrds s1 v) = hdq vs" using inv_node(2) c(2) ws by blast
    with d(2) ws obtain w rest where vs: "vs = w # rest" "v_next (vrds s1 v) = w" by (cases vs) auto
    have "vrdl_inv g s1 (us' @ v # w # rest) fs1 []" using c(2) ws vs by simp
    from absorb_next_inv [OF this] d ws vs show ?thesis by auto
  qed
  then obtain ps2 fs2 where p2: "vrdl_inv g s2 ps2 fs2 []" "api_state s2 = api_state s1"
      "rmap (regs (vrds s2) ps2) = rmap (regs (vrds s1) (us' @ ws'))"
      "pages_ok (regs (vrds s1) (us' @ ws')) \<longrightarrow> pages_ok (regs (vrds s2) ps2)" by blast
  obtain fs3 where p3: "vrdl_inv g (free_list_check_level malloc s2) ps2 fs3 []"
      "same_list (ps2 @ []) s2 (free_list_check_level malloc s2)"
    using free_list_check_level_inv [OF p2(1) m] by blast
  have "combine_vrds g malloc a e s = Some (Inr (free_list_check_level malloc s2))"
    using f(2) c(1) by (simp add: combine_vrds_def Let_def s2_def)
  with p3 p2 c(3-5) same_list_regs [OF p3(2)] show ?thesis by (auto simp: same_list_def)
qed

section \<open>Splitting and combining are invisible\<close>

text \<open>
  C33. Splitting and combining region descriptors never changes what is recorded of any address: on a
  well-formed list, \<^verbatim>\<open>split_vrds_if_needed\<close> and \<^verbatim>\<open>combine_vrds\<close> always return, whatever \<^verbatim>\<open>malloc\<close> does, leave a
  well-formed list with the same attributes at every address and touch no other global of the reserved
  memory. When \<^verbatim>\<open>split_vrds_if_needed\<close> succeeds, no region reaches across either end of the range.
\<close>
theorem split_combine_keep_regions:
  assumes "vrdl_inv g s ps fs []" "malloc_ok g malloc"
  shows "(\<exists>ok s' ps' fs'. split_vrds_if_needed g malloc a e s = Some (Inr (ok, s')) \<and> vrdl_inv g s' ps' fs' [] \<and>
      api_state s' = api_state s \<and> rmap (regs (vrds s') ps') = rmap (regs (vrds s) ps) \<and>
      (ok \<longrightarrow> boundary (regs (vrds s') ps') a \<and> boundary (regs (vrds s') ps') (e + 1)))
    \<and> (\<exists>s' ps' fs'. combine_vrds g malloc a e s = Some (Inr s') \<and> vrdl_inv g s' ps' fs' [] \<and>
      api_state s' = api_state s \<and> rmap (regs (vrds s') ps') = rmap (regs (vrds s) ps))"
  using split_vrds_spec [OF assms, of a e] combine_vrds_spec [OF assms, of a e] by blast

definition demo_vrd :: vrd_t where
  "demo_vrd = \<lparr>start_addr = 0x180000, v_size = 0x4000, v_flags = 0, v_state = VRD_STATE_COMMITTED, v_perms = SGX_PAGE_READWRITE,
     page_type = VRD_PT_REG, v_next = NULL, v_prev = NULL\<rparr>"

definition demo_vrdl :: rsrv_state where
  "demo_vrdl = \<lparr>vrds = (\<lambda>_. zero_vrd)(0x110000 := demo_vrd), g_vrdl = 0x110000, g_vrdl_free_list = 0x110100,
     g_vrdl_free_list_count = 1, live = [0x110000, 0x110100], mallocs = 0, g_vrdl_mutex = False, g_first_alloc = False,
     rsrv_mem_committed = 0, g_peak_rsrv_mem_committed = 0, errno = 0\<rparr>"

definition demo_malloc :: malloc where
  "demo_malloc k blocks = (if 0x110200 \<in> set blocks \<or> length blocks > 100 then NULL else 0x110200)"

lemma demo_in_heap: "in_heap demo_layout 0x110000" "in_heap demo_layout 0x110100" "in_heap demo_layout 0x110200"
  by (simp_all add: in_heap_def demo_layout_def get_heap_base_def get_heap_size_def page_bytes_def)

lemma demo_vrdl_inv: "vrdl_inv demo_layout demo_vrdl [0x110000] [0x110100] []" "malloc_ok demo_layout demo_malloc"
  using demo_in_heap
  by (simp_all add: vrdl_inv_def demo_vrdl_def demo_vrd_def zero_vrd_def regions_ok_def region_ok_def data_def
      malloc_ok_def demo_malloc_def)

theorem split_combine_keep_regions_witness:
  "\<exists>ok s'. split_vrds_if_needed demo_layout demo_malloc 0x181000 0x181fff demo_vrdl = Some (Inr (ok, s')) \<and>
     (\<exists>ps'. rmap (regs (vrds s') ps') = rmap (regs (vrds demo_vrdl) [0x110000]))"
  using split_combine_keep_regions [OF demo_vrdl_inv, of "0x181000" "0x181fff"] by blast

end
