(* ===== verification/Rsrv_Mem.thy ===== *)
theory Rsrv_Mem
  imports Vrd_Refine Trts_Protect
begin

text \<open>
  The reserved memory of an enclave (\<^verbatim>\<open>sdk/tmm_rsrv/sgx_rsrv_mem.cpp\<close>, \<^verbatim>\<open>sgx_rsrv_mem_init.cpp\<close> and the page
  functions of \<^verbatim>\<open>mm_vrd_util.cpp\<close>): allocation, release and protection of pages, on top of the region
  descriptors. Each function runs under \<^verbatim>\<open>g_vrdl_mutex\<close>.
\<close>

section \<open>Page flags and page instructions\<close>

definition convert_protect_to_si_flags :: "u32 \<Rightarrow> bool \<Rightarrow> bool \<Rightarrow> bool \<Rightarrow> u64" where
  "convert_protect_to_si_flags protect modified pending perm_reduced =
     ((if protect = SGX_PAGE_NOACCESS then SI_FLAG_REG
       else if protect = SGX_PAGE_READONLY then SI_FLAG_R OR SI_FLAG_REG
       else if protect = SGX_PAGE_READWRITE then SI_FLAG_R OR SI_FLAG_W OR SI_FLAG_REG
       else if protect = SGX_PAGE_EXECUTE_READ then SI_FLAG_R OR SI_FLAG_X OR SI_FLAG_REG
       else if protect = SGX_PAGE_EXECUTE_READWRITE then SI_FLAG_R OR SI_FLAG_W OR SI_FLAG_X OR SI_FLAG_REG
       else if protect = SGX_PAGE_ENCLAVE_DECOMMIT then SI_FLAG_TRIM
       else if protect = SGX_PAGE_ENCLAVE_THREAD_CONTROL then SI_FLAG_TCS
       else 0)
      OR (if modified then SI_FLAG_MODIFIED else 0)
      OR (if pending then SI_FLAG_PENDING else 0)
      OR (if perm_reduced then SI_FLAG_PR else 0))"

definition convert_si_flags_to_protect :: "u64 \<Rightarrow> u32" where
  "convert_si_flags_to_protect si =
     (let p = si AND (SI_FLAG_X OR SI_FLAG_R OR SI_FLAG_W) in
      if p = SI_FLAG_R then SGX_PAGE_READONLY
      else if p = SI_FLAG_R OR SI_FLAG_W then SGX_PAGE_READWRITE
      else if p = SI_FLAG_R OR SI_FLAG_X then SGX_PAGE_EXECUTE_READ
      else if p = SI_FLAG_R OR SI_FLAG_W OR SI_FLAG_X then SGX_PAGE_EXECUTE_READWRITE
      else if p = 0 then SGX_PAGE_NOACCESS
      else 0)"

text \<open>
  The loops over pages count in an \<^verbatim>\<open>unsigned int\<close> against a \<^verbatim>\<open>size_t\<close>. The instructions issued are recorded.
\<close>

partial_function (option) accept_loop ::
  "eaccept \<Rightarrow> u64 \<Rightarrow> u32 \<Rightarrow> u64 \<Rightarrow> u64 \<Rightarrow> page_event list \<Rightarrow> page_event list exec option" where
  "accept_loop eaccept si i n_pages t_addr acc =
     (if ucast i < n_pages
      then case do_eaccept eaccept si t_addr of
             Inl f \<Rightarrow> Some (Inl f)
           | Inr _ \<Rightarrow> accept_loop eaccept si (i + 1) n_pages (t_addr + SE_PAGE_SIZE) (acc @ [Eaccept si t_addr])
      else Some (Inr acc))"

partial_function (option) emodpe_loop :: "u64 \<Rightarrow> u32 \<Rightarrow> u64 \<Rightarrow> u64 \<Rightarrow> page_event list \<Rightarrow> page_event list option" where
  "emodpe_loop si i n_pages t_addr acc =
     (if ucast i < n_pages then emodpe_loop si (i + 1) n_pages (t_addr + SE_PAGE_SIZE) (acc @ [Emodpe si t_addr])
      else Some acc)"

definition accept_modified_pages :: "eaccept \<Rightarrow> addr \<Rightarrow> u64 \<Rightarrow> u64 \<Rightarrow> (int \<times> page_event list) exec option" where
  "accept_modified_pages eaccept addr n_pages si_flags =
     (if addr = NULL \<or> \<not> IS_PAGE_ALIGNED addr \<or> n_pages = 0 then Some (Inr (1, []))
      else xbind (accept_loop eaccept si_flags 0 n_pages addr []) (\<lambda>es. Some (Inr (0, es))))"

definition emodpe_pages :: "addr \<Rightarrow> u64 \<Rightarrow> u64 \<Rightarrow> (int \<times> page_event list) option" where
  "emodpe_pages addr n_pages si_flags =
     (if addr = NULL \<or> \<not> IS_PAGE_ALIGNED addr \<or> n_pages = 0 then Some (1, [])
      else map_option (Pair 0) (emodpe_loop si_flags 0 n_pages addr []))"

definition accept_pending_pages :: "eaccept \<Rightarrow> addr \<Rightarrow> u64 \<Rightarrow> (int \<times> page_event list) exec option" where
  "accept_pending_pages eaccept addr n_pages =
     (if addr = NULL \<or> \<not> IS_PAGE_ALIGNED addr \<or> n_pages = 0 then Some (Inr (1, []))
      else xbind (accept_loop eaccept SI_FLAGS_RW 0 n_pages addr []) (\<lambda>es. Some (Inr (0, es))))"

section \<open>Setting up\<close>

definition rsrv_mem_init :: "rsrv_globals \<Rightarrow> u64 \<Rightarrow> u64 \<Rightarrow> u64 \<Rightarrow> sgx_status \<times> rsrv_globals" where
  "rsrv_mem_init r base sz min_size =
     (if base = NULL \<or> base AND (SE_PAGE_SIZE - 1) \<noteq> 0 then (SGX_ERROR_UNEXPECTED, r)
      else if sz AND (SE_PAGE_SIZE - 1) \<noteq> 0 then (SGX_ERROR_UNEXPECTED, r)
      else if min_size AND (SE_PAGE_SIZE - 1) \<noteq> 0 then (SGX_ERROR_UNEXPECTED, r)
      else if sz > SIZE_MAX - rsrv_mem_base r then (SGX_ERROR_UNEXPECTED, r)
      else (SGX_SUCCESS, \<lparr>rsrv_mem_base = base, rsrv_mem_size = sz, rsrv_mem_min_size = min_size\<rparr>))"

text \<open>
  What the functions below call: the layout, the globals set by \<^verbatim>\<open>rsrv_mem_init\<close>, the enclave range, \<^verbatim>\<open>malloc\<close>,
  EACCEPT, and the result of \<^verbatim>\<open>change_permissions_ocall\<close>.
\<close>

record rsrv_env =
  re_g :: global_data
  re_r :: rsrv_globals
  re_range :: enclave_range
  re_sdk_version :: u32
  re_executable :: bool
  re_malloc :: malloc
  re_eaccept :: eaccept
  re_perm_ocall :: "u64 \<Rightarrow> u64 \<Rightarrow> u64 \<Rightarrow> int \<Rightarrow> sgx_status exec option"

definition init_rsrv_mem_vrd :: "rsrv_env \<Rightarrow> rsrv_state \<Rightarrow> (int \<times> rsrv_state) exec option" where
  "init_rsrv_mem_vrd e s =
     (case init_vrdl (re_malloc e) s of
        None \<Rightarrow> None
      | Some (ok, s) \<Rightarrow>
          if \<not> ok then Some (Inr (ENOMEM, s))
          else xbind (insert_vrd (re_g e) (re_r e) (re_malloc e) (image_base (re_g e)) (rsrv_offset (re_g e))
                        SGX_PAGE_NOACCESS VRD_STATE_LOCKED VRD_PT_REG s) (\<lambda>(pvrd, err, s).
                 Some (Inr (if pvrd = NULL then if err = Some SGX_ERROR_OUT_OF_MEMORY then ENOMEM else EINVAL else 0, s))))"

definition sgx_get_rsrv_mem_info :: "rsrv_globals \<Rightarrow> addr \<Rightarrow> addr \<Rightarrow> sgx_status \<times> u64 option \<times> u64 option" where
  "sgx_get_rsrv_mem_info r p_start p_max =
     (if p_start = NULL \<and> p_max = NULL then (SGX_ERROR_INVALID_PARAMETER, None, None)
      else (SGX_SUCCESS, if p_start \<noteq> NULL then Some (rsrv_mem_base r) else None,
            if p_max \<noteq> NULL then Some (rsrv_mem_size r) else None))"

definition mutex_lock :: "rsrv_state \<Rightarrow> rsrv_state" where "mutex_lock s = s\<lparr>g_vrdl_mutex := True\<rparr>"
definition mutex_unlock :: "rsrv_state \<Rightarrow> rsrv_state" where "mutex_unlock s = s\<lparr>g_vrdl_mutex := False\<rparr>"

section \<open>Allocation\<close>

text \<open>The result is the address, the pages accepted and the new state.\<close>

type_synonym alloc_result = "(addr \<times> addr list \<times> rsrv_state) exec option"

definition alloc_fail :: "int \<Rightarrow> rsrv_state \<Rightarrow> alloc_result" where
  "alloc_fail err s = Some (Inr (NULL, [], (mutex_unlock s)\<lparr>errno := err\<rparr>))"

text \<open>The pages of a new region beyond those committed before are accepted.\<close>

definition commit_pages :: "rsrv_env \<Rightarrow> u64 \<Rightarrow> rsrv_state \<Rightarrow> (int \<times> addr list \<times> rsrv_state) exec option" where
  "commit_pages e stop s =
     (let r = re_r e in
      if stop > rsrv_mem_base r + rsrv_mem_committed s
      then
        let prev = rsrv_mem_committed s;
            offset = stop - (rsrv_mem_base r + rsrv_mem_committed s);
            s = s\<lparr>rsrv_mem_committed := prev + ROUND_TO offset SE_PAGE_SIZE\<rparr> in
        if EDMM_supported (re_g e) \<and> stop > rsrv_mem_base r + rsrv_mem_min_size r
        then
          let (start, sz) =
                (if prev > rsrv_mem_min_size r then (rsrv_mem_base r + prev, ROUND_TO offset SE_PAGE_SIZE)
                 else (rsrv_mem_base r + rsrv_mem_min_size r, rsrv_mem_committed s - rsrv_mem_min_size r)) in
          xbind (apply_EPC_pages (re_g e) r (re_eaccept e) start (drop_bit SE_PAGE_SHIFT sz)) (\<lambda>(ret, ps).
            Some (Inr (ret, ps, if ret \<noteq> 0 then s\<lparr>rsrv_mem_committed := prev\<rparr> else s)))
        else Some (Inr (0, [], s))
      else Some (Inr (0, [], s)))"

definition alloc_region :: "rsrv_env \<Rightarrow> u64 \<Rightarrow> u64 \<Rightarrow> rsrv_state \<Rightarrow> alloc_result" where
  "alloc_region e desired_addr len s =
     (let g = re_g e; r = re_r e in
      xbind (insert_vrd g r (re_malloc e) desired_addr len
               (if \<not> EDMM_supported g \<and> re_executable e then SGX_PAGE_EXECUTE_READWRITE else SGX_PAGE_READWRITE)
               VRD_STATE_COMMITTED VRD_PT_REG s) (\<lambda>(rsrv_vrd, err, s).
        if rsrv_vrd = NULL then alloc_fail (if err = Some SGX_ERROR_OUT_OF_MEMORY then ENOMEM else EINVAL) s
        else
          let start = start_addr (vrds s rsrv_vrd) in
          if start > SIZE_MAX - len \<or> start + len > rsrv_mem_base r + rsrv_mem_size r
          then xbind (Some (remove_vrd rsrv_vrd s)) (\<lambda>(_, s). alloc_fail ENOMEM s)
          else xbind (commit_pages e (start + len) s) (\<lambda>(ret, ps, s).
            if ret \<noteq> 0 then xbind (Some (remove_vrd rsrv_vrd s)) (\<lambda>(_, s). alloc_fail ENOMEM s)
            else
              let s = s\<lparr>g_peak_rsrv_mem_committed :=
                          (if g_peak_rsrv_mem_committed s < rsrv_mem_committed s then rsrv_mem_committed s
                           else g_peak_rsrv_mem_committed s)\<rparr> in
              xbind (combine_vrds g (re_malloc e) start (start + len - 1) s) (\<lambda>s.
                Some (Inr (start, ps, mutex_unlock s))))))"

definition sgx_alloc_rsrv_mem_ex :: "rsrv_env \<Rightarrow> addr \<Rightarrow> u64 \<Rightarrow> rsrv_state \<Rightarrow> alloc_result" where
  "sgx_alloc_rsrv_mem_ex e desired_addr len s =
     (let r = re_r e in
      if rsrv_mem_size r = 0 then Some (Inr (NULL, [], s\<lparr>errno := EPERM\<rparr>))
      else if \<not> IS_PAGE_ALIGNED desired_addr \<or> len = 0 \<or> \<not> IS_PAGE_ALIGNED len \<or> len > rsrv_mem_size r
      then Some (Inr (NULL, [], s\<lparr>errno := EINVAL\<rparr>))
      else if desired_addr \<noteq> NULL \<and>
              (let end1 = desired_addr + len - 1 in
               desired_addr > end1 \<or> len > end1 \<or> end1 > rsrv_mem_base r + rsrv_mem_size r - 1 \<or>
               desired_addr < rsrv_mem_base r)
      then Some (Inr (NULL, [], s\<lparr>errno := EINVAL\<rparr>))
      else
        let s = mutex_lock s in
        if g_first_alloc s
        then xbind (init_rsrv_mem_vrd e s) (\<lambda>(ret, s).
               if ret \<noteq> 0 then alloc_fail ret s
               else alloc_region e desired_addr len (s\<lparr>g_first_alloc := False\<rparr>))
        else alloc_region e desired_addr len s)"

definition sgx_alloc_rsrv_mem :: "rsrv_env \<Rightarrow> u64 \<Rightarrow> rsrv_state \<Rightarrow> alloc_result" where
  "sgx_alloc_rsrv_mem e len s = sgx_alloc_rsrv_mem_ex e NULL len s"

section \<open>Protection and release\<close>

text \<open>A call whose result other than \<open>ok\<close> aborts.\<close>

definition or_abort :: "('a \<Rightarrow> bool) \<Rightarrow> 'a exec option \<Rightarrow> 'a exec option" where
  "or_abort ok m = xbind m (\<lambda>x. Some (if ok x then Inr x else Inl Abort))"

definition tprotect_internal :: "rsrv_env \<Rightarrow> u64 \<Rightarrow> u64 \<Rightarrow> u64 \<Rightarrow> rsrv_state \<Rightarrow> (sgx_status \<times> page_event list) exec option" where
  "tprotect_internal e start sz perms s =
     (if \<not> IS_PAGE_ALIGNED start \<or> sz = 0 \<or> \<not> IS_PAGE_ALIGNED sz then Some (Inr (SGX_ERROR_INVALID_PARAMETER, []))
      else
        let target_prot = convert_si_flags_to_protect perms in
        xbind (check_vrds_pr_pe_needed (re_g e) start (start + sz) target_prot s) (\<lambda>needed.
          case needed of
            None \<Rightarrow> Some (Inr (SGX_ERROR_UNEXPECTED, []))
          | Some (pr, pe) \<Rightarrow>
              xbind (if pr \<or> pe then or_abort (\<lambda>st. st = SGX_SUCCESS) (re_perm_ocall e start sz perms EDMM_MODPR)
                     else Some (Inr SGX_SUCCESS)) (\<lambda>_.
              let sf = perms OR SI_FLAG_PR OR SI_FLAG_REG; n = sz div SE_PAGE_SIZE in
              xbind (if pe then or_abort (\<lambda>(rc, _). rc = 0) (map_option Inr (emodpe_pages start n sf)) else Some (Inr (0, []))) (\<lambda>(_, es1).
              xbind (if pr \<and> perms AND (SI_FLAG_W OR SI_FLAG_X) \<noteq> SI_FLAG_W OR SI_FLAG_X
                     then or_abort (\<lambda>(rc, _). rc = 0) (accept_modified_pages (re_eaccept e) start n sf) else Some (Inr (0, []))) (\<lambda>(_, es2).
              xbind (if pr \<and> perms = 0 then or_abort (\<lambda>st. st = SGX_SUCCESS) (re_perm_ocall e start sz perms EDMM_MPROTECT)
                     else Some (Inr SGX_SUCCESS)) (\<lambda>_.
              Some (Inr (SGX_SUCCESS, es1 @ es2))))))))"

definition sgx_free_rsrv_mem :: "rsrv_env \<Rightarrow> addr \<Rightarrow> u64 \<Rightarrow> rsrv_state \<Rightarrow> (int \<times> page_event list \<times> rsrv_state) exec option" where
  "sgx_free_rsrv_mem e addr len s =
     (let g = re_g e; r = re_r e; end_addr = addr + len - 1 in
      if rsrv_mem_size r = 0 \<or> addr = 0 \<or> \<not> IS_PAGE_ALIGNED addr \<or> len = 0 \<or> \<not> IS_PAGE_ALIGNED len \<or>
         \<not> sgx_is_within_enclave (re_range e) addr len
      then Some (Inr (-1, [], s\<lparr>errno := EINVAL\<rparr>))
      else if addr < rsrv_mem_base r \<or> addr > SIZE_MAX - len \<or> addr + len > rsrv_mem_base r + rsrv_mem_size r
      then Some (Inr (-1, [], s\<lparr>errno := EINVAL\<rparr>))
      else
        let s = mutex_lock s in
        xbind (find_vrd g s addr) (\<lambda>vrd.
          if vrd = NULL then Some (Inr (-1, [], (mutex_unlock s)\<lparr>errno := EINVAL\<rparr>))
          else xbind (split_vrds_if_needed g (re_malloc e) addr end_addr s) (\<lambda>(brc, s).
            xbind (if brc then or_abort (\<lambda>vrd. vrd \<noteq> NULL) (find_vrd g s addr) else Some (Inr vrd)) (\<lambda>_.
            xbind (if EDMM_supported g then tprotect_internal e addr len (SI_FLAG_R OR SI_FLAG_W) s
                   else Some (Inr (SGX_SUCCESS, []))) (\<lambda>(st, es).
              if st \<noteq> SGX_SUCCESS then Some (Inr (-1, es, mutex_unlock s))
              else xbind (free_vrds g addr end_addr s) (\<lambda>(_, s). Some (Inr (0, es, mutex_unlock s))))))))"

abbreviation (input) SGX_PROT_READ :: u32 where "SGX_PROT_READ \<equiv> 1"
abbreviation (input) SGX_PROT_WRITE :: u32 where "SGX_PROT_WRITE \<equiv> 2"
abbreviation (input) SGX_PROT_EXEC :: u32 where "SGX_PROT_EXEC \<equiv> 4"
abbreviation (input) SDK_VERSION_2_3 :: u32 where "SDK_VERSION_2_3 \<equiv> 4"

definition prot_to_perms :: "u32 \<Rightarrow> u64" where
  "prot_to_perms prot =
     (if prot AND SGX_PROT_EXEC = SGX_PROT_EXEC then SI_FLAG_X else 0) OR
     (if prot AND SGX_PROT_READ = SGX_PROT_READ then SI_FLAG_R else 0) OR
     (if prot AND SGX_PROT_WRITE = SGX_PROT_WRITE then SI_FLAG_W else 0)"

type_synonym tprotect_result = "(sgx_status \<times> page_event list \<times> rsrv_state) exec option"

definition tprotect_regions :: "rsrv_env \<Rightarrow> addr \<Rightarrow> u64 \<Rightarrow> u64 \<Rightarrow> rsrv_state \<Rightarrow> tprotect_result" where
  "tprotect_regions e addr len perms s =
     (let g = re_g e; protect = convert_si_flags_to_protect perms; end_addr = addr + len - 1 in
      xbind (find_vrd g s addr) (\<lambda>vrd.
        if vrd = NULL then Some (Inr (SGX_ERROR_INVALID_PARAMETER, [], s))
        else xbind (split_vrds_if_needed g (re_malloc e) addr end_addr s) (\<lambda>(brc, s).
          if \<not> brc then Some (Inr (SGX_ERROR_OUT_OF_MEMORY, [], s))
          else xbind (find_vrd g s addr) (\<lambda>vrd.
            if vrd = NULL then Some (Inr (SGX_ERROR_UNEXPECTED, [], s))
            else xbind (check_vrds_pagetype g addr end_addr VRD_PT_REG s) (\<lambda>ok.
              if \<not> ok then Some (Inr (SGX_ERROR_INVALID_PARAMETER, [], s))
              else xbind (tprotect_internal e addr len perms s) (\<lambda>(ret, es).
                if ret \<noteq> SGX_SUCCESS then Some (Inr (ret, es, s))
                else xbind (update_vrds g (\<lambda>v. v\<lparr>v_perms := protect\<rparr>) addr end_addr s) (\<lambda>(ok, s).
                  if \<not> ok then Some (Inr (SGX_ERROR_UNEXPECTED, es, s))
                  else xbind (combine_vrds g (re_malloc e) addr end_addr s) (\<lambda>s.
                    Some (Inr (SGX_SUCCESS, es, s))))))))))"

definition sgx_tprotect_rsrv_mem :: "rsrv_env \<Rightarrow> addr \<Rightarrow> u64 \<Rightarrow> u32 \<Rightarrow> rsrv_state \<Rightarrow> tprotect_result" where
  "sgx_tprotect_rsrv_mem e addr len prot s =
     (let g = re_g e; r = re_r e in
      if \<not> EDMM_supported g
      then xbind (get_vrds_perms g addr 0 s) (\<lambda>cur_prot.
             if cur_prot = SGX_PAGE_NOACCESS \<or> cur_prot = SGX_PAGE_READWRITE \<and> prot AND SGX_PROT_EXEC \<noteq> 0
             then Some (Inr (SGX_ERROR_INVALID_PARAMETER, [], s)) else Some (Inr (SGX_SUCCESS, [], s)))
      else if \<not> sgx_is_within_enclave (re_range e) addr len then Some (Inr (SGX_ERROR_INVALID_PARAMETER, [], s))
      else if re_sdk_version e < SDK_VERSION_2_3 then Some (Inr (SGX_ERROR_UPDATE_NEEDED, [], s))
      else if rsrv_mem_size r = 0 \<or> addr < rsrv_mem_base r \<or> \<not> IS_PAGE_ALIGNED addr \<or> len < SE_PAGE_SIZE \<or> \<not> IS_PAGE_ALIGNED len
      then Some (Inr (SGX_ERROR_INVALID_PARAMETER, [], s))
      else if prot AND SGX_PROT_READ = 0 \<and> prot AND (SGX_PROT_WRITE OR SGX_PROT_EXEC) \<noteq> 0 \<or>
              prot AND NOT (SGX_PROT_READ OR SGX_PROT_WRITE OR SGX_PROT_EXEC) \<noteq> 0
      then Some (Inr (SGX_ERROR_INVALID_PARAMETER, [], s))
      else xbind (tprotect_regions e addr len (prot_to_perms prot) (mutex_lock s)) (\<lambda>(ret, es, s).
             Some (Inr (ret, es, mutex_unlock s))))"

end
