(* ===== verification/Thread_Queue.thy ===== *)
theory Thread_Queue
  imports Prelude "HOL-Library.Monad_Syntax"
begin

text \<open>
  The waiter queues of the trusted thread library (\<^verbatim>\<open>sdk/tlibthread/sethread_internal.h\<close>). A queue is
  a first/last pointer pair; its elements are thread-data addresses linked through their
  \<^verbatim>\<open>m_next\<close> fields. One thread has one \<^verbatim>\<open>m_next\<close>, shared by every queue of the enclave, so the fields
  live in a store \<open>nx\<close> that the queue operations read and update.

  \<open>queue_ok nx q xs\<close> relates a queue to the list of its waiters. The locale \<open>waiter_queue\<close> states
  what mutexes, condition variables and read/write locks rely on; it is interpreted on the macros'
  definitions at the end.
\<close>

type_synonym tstore = "addr \<Rightarrow> addr"

record sgx_thread_queue =
  m_first :: addr
  m_last :: addr

definition QUEUE_FIRST :: "sgx_thread_queue \<Rightarrow> addr" where
  "QUEUE_FIRST head = m_first head"

definition QUEUE_INIT :: sgx_thread_queue where
  "QUEUE_INIT = \<lparr>m_first = NULL, m_last = NULL\<rparr>"

definition QUEUE_INSERT_TAIL :: "tstore \<Rightarrow> sgx_thread_queue \<Rightarrow> addr \<Rightarrow> tstore \<times> sgx_thread_queue" where
  "QUEUE_INSERT_TAIL nx head elm =
     (let nx = nx(elm := NULL) in
      if m_first head \<noteq> NULL
      then (nx(m_last head := elm), head\<lparr>m_last := elm\<rparr>)
      else (nx, head\<lparr>m_first := elm, m_last := elm\<rparr>))"

text \<open>The head element is dereferenced: every use is guarded by a non-null \<^verbatim>\<open>m_first\<close>.\<close>

definition QUEUE_REMOVE_HEAD :: "tstore \<Rightarrow> sgx_thread_queue \<Rightarrow> sgx_thread_queue" where
  "QUEUE_REMOVE_HEAD nx head =
     (let f = nx (m_first head); head = head\<lparr>m_first := f\<rparr> in
      if f = NULL then head\<lparr>m_last := NULL\<rparr> else head)"

text \<open>
  The loops over a queue follow \<^verbatim>\<open>m_next\<close>; on a cyclic store they do not end, which is the value
  \<open>None\<close>. \<open>queue_find\<close> is \<^verbatim>\<open>QUEUE_FOREACH(w, head) if (w == self) break;\<close> and returns the final
  \<open>w\<close>; \<open>queue_collect\<close> is \<^verbatim>\<open>QUEUE_FOREACH(w, head) *tmp++ = w;\<close> and returns what is stored.
\<close>

partial_function (option) queue_find :: "tstore \<Rightarrow> addr \<Rightarrow> addr \<Rightarrow> addr option" where
  "queue_find nx self w =
     (if w = NULL then Some NULL
      else if w = self then Some w
      else queue_find nx self (nx w))"

partial_function (option) queue_count :: "tstore \<Rightarrow> addr \<Rightarrow> u64 \<Rightarrow> u64 option" where
  "queue_count nx w n =
     (if w = NULL then Some n else queue_count nx (nx w) (n + 1))"

definition QUEUE_COUNT_ALL :: "tstore \<Rightarrow> sgx_thread_queue \<Rightarrow> u64 option" where
  "QUEUE_COUNT_ALL nx head = queue_count nx (QUEUE_FIRST head) 0"

partial_function (option) queue_collect :: "tstore \<Rightarrow> addr \<Rightarrow> addr list \<Rightarrow> addr list option" where
  "queue_collect nx w acc =
     (if w = NULL then Some acc else queue_collect nx (nx w) (acc @ [w]))"

partial_function (option) queue_remove_loop ::
  "tstore \<Rightarrow> sgx_thread_queue \<Rightarrow> addr \<Rightarrow> addr \<Rightarrow> (tstore \<times> sgx_thread_queue) option" where
  "queue_remove_loop nx var elm tmpThread =
     (if nx tmpThread = NULL then Some (nx, var)
      else if nx tmpThread = elm
      then Some (nx(tmpThread := nx (nx tmpThread), elm := NULL),
                 if m_last var = elm then var\<lparr>m_last := tmpThread\<rparr> else var)
      else queue_remove_loop nx var elm (nx tmpThread))"

definition QUEUE_REMOVE ::
  "tstore \<Rightarrow> sgx_thread_queue \<Rightarrow> addr \<Rightarrow> (tstore \<times> sgx_thread_queue) option" where
  "QUEUE_REMOVE nx var elm =
     (if m_first var = NULL then Some (nx, var)
      else if m_first var = elm then Some (nx, QUEUE_REMOVE_HEAD nx var)
      else queue_remove_loop nx var elm (m_first var))"

section \<open>Queues as lists of waiters\<close>

definition queue_ok :: "tstore \<Rightarrow> sgx_thread_queue \<Rightarrow> addr list \<Rightarrow> bool" where
  "queue_ok nx q xs \<longleftrightarrow> chain nx (m_first q) xs \<and> m_last q = (if xs = [] then NULL else last xs)"

named_theorems queue_defs

lemmas queue_op_defs [queue_defs] =
  QUEUE_FIRST_def QUEUE_INIT_def QUEUE_INSERT_TAIL_def QUEUE_REMOVE_HEAD_def QUEUE_REMOVE_def

lemma queue_ok_init: "queue_ok nx QUEUE_INIT []"
  by (simp add: queue_ok_def QUEUE_INIT_def)

lemma queue_ok_first: "queue_ok nx q xs \<Longrightarrow> QUEUE_FIRST q = (case xs of [] \<Rightarrow> NULL | x # _ \<Rightarrow> x)"
  by (auto simp: queue_ok_def QUEUE_FIRST_def dest: chain_hd)

lemma queue_ok_nonnull: "queue_ok nx q xs \<Longrightarrow> NULL \<notin> set xs"
  by (auto simp: queue_ok_def dest: chain_nonnull)

lemma queue_ok_distinct: "queue_ok nx q xs \<Longrightarrow> distinct xs"
  by (auto simp: queue_ok_def dest: chain_distinct)

lemma queue_ok_frame:
  "queue_ok nx q xs \<Longrightarrow> \<forall>x\<in>set xs. nx' x = nx x \<Longrightarrow> queue_ok nx' q xs"
  using chain_cong [of xs nx nx' "m_first q"] by (auto simp: queue_ok_def)

lemma queue_ok_insert:
  assumes "queue_ok nx q xs" "t \<noteq> NULL" "t \<notin> set xs"
  shows "case_prod queue_ok (QUEUE_INSERT_TAIL nx q t) (xs @ [t])"
proof (cases "xs = []")
  case True
  with assms show ?thesis by (simp add: queue_ok_def QUEUE_INSERT_TAIL_def)
next
  case False
  then have "m_first q \<noteq> NULL"
    using assms(1) by (cases xs) (auto simp: queue_ok_def)
  with False assms show ?thesis
    by (simp add: queue_ok_def QUEUE_INSERT_TAIL_def chain_snoc del: fun_upd_apply)
qed

lemma queue_insert_frame:
  assumes "queue_ok nx q xs" "y \<notin> set xs" "y \<noteq> t"
  shows "fst (QUEUE_INSERT_TAIL nx q t) y = nx y"
proof (cases "xs = []")
  case True
  with assms show ?thesis by (simp add: queue_ok_def QUEUE_INSERT_TAIL_def)
next
  case False
  then have "last xs \<in> set xs" by simp
  with assms False show ?thesis by (auto simp: queue_ok_def QUEUE_INSERT_TAIL_def Let_def)
qed

lemma queue_ok_remove_head:
  "queue_ok nx q (x # xs) \<Longrightarrow> queue_ok nx (QUEUE_REMOVE_HEAD nx q) xs"
  by (cases xs) (auto simp: queue_ok_def QUEUE_REMOVE_HEAD_def Let_def)

lemma queue_find_chain: "chain nx p xs \<Longrightarrow> queue_find nx t p = Some (if t \<in> set xs then t else NULL)"
proof (induction xs arbitrary: p)
  case Nil
  then show ?case by (simp add: queue_find.simps)
next
  case (Cons x xs)
  then show ?case using queue_find.simps [of nx t p] by auto
qed

lemma queue_find_ok:
  "queue_ok nx q xs \<Longrightarrow> queue_find nx t (QUEUE_FIRST q) = Some (if t \<in> set xs then t else NULL)"
  by (simp add: queue_ok_def QUEUE_FIRST_def queue_find_chain)

lemma queue_count_chain: "chain nx p xs \<Longrightarrow> queue_count nx p n = Some (n + word_of_nat (length xs))"
proof (induction xs arbitrary: p n)
  case Nil
  then show ?case by (simp add: queue_count.simps)
next
  case (Cons x xs)
  then show ?case using queue_count.simps [of nx p n] by (auto simp: algebra_simps)
qed

lemma queue_count_ok: "queue_ok nx q xs \<Longrightarrow> QUEUE_COUNT_ALL nx q = Some (word_of_nat (length xs))"
  using queue_count_chain [of nx "m_first q" xs 0]
  by (simp add: queue_ok_def QUEUE_COUNT_ALL_def QUEUE_FIRST_def)

lemma queue_collect_chain: "chain nx p xs \<Longrightarrow> queue_collect nx p acc = Some (acc @ xs)"
proof (induction xs arbitrary: p acc)
  case Nil
  then show ?case by (simp add: queue_collect.simps)
next
  case (Cons x xs)
  then show ?case using queue_collect.simps [of nx p acc] by auto
qed

lemma queue_collect_ok: "queue_ok nx q xs \<Longrightarrow> queue_collect nx (QUEUE_FIRST q) [] = Some xs"
  using queue_collect_chain [of nx "m_first q" xs "[]"] by (simp add: queue_ok_def QUEUE_FIRST_def)

lemma queue_unlink:
  assumes ok: "queue_ok nx q (us @ t # elm # vs)"
  shows "queue_ok (nx(t := nx elm, elm := NULL))
           (if m_last q = elm then q\<lparr>m_last := t\<rparr> else q) (us @ t # vs)"
proof -
  have d: "distinct (us @ t # elm # vs)" by (rule queue_ok_distinct [OF ok])
  from ok have "chain (nx(t := nx elm)) (m_first q) (us @ t # vs)"
    unfolding queue_ok_def by (blast intro: chain_unlink)
  moreover have "elm \<notin> set (us @ t # vs)" using d by auto
  ultimately have c: "chain (nx(t := nx elm, elm := NULL)) (m_first q) (us @ t # vs)"
    by (simp del: fun_upd_apply)
  have l: "m_last q = (if vs = [] then elm else last vs)"
    using ok by (simp add: queue_ok_def)
  have "vs \<noteq> [] \<Longrightarrow> last vs \<noteq> elm" using d by (auto dest: last_in_set)
  with l have "m_last q = elm \<longleftrightarrow> vs = []" by auto
  with l c show ?thesis by (auto simp: queue_ok_def simp del: fun_upd_apply)
qed

lemma queue_remove_loop_ok:
  assumes "queue_ok nx q (us @ t # vs)" "elm \<notin> set us" "elm \<noteq> t"
  shows "\<exists>nx' q'. queue_remove_loop nx q elm t = Some (nx', q') \<and>
           queue_ok nx' q' (remove1 elm (us @ t # vs)) \<and>
           (\<forall>y. y \<notin> set (us @ t # vs) \<longrightarrow> nx' y = nx y)"
  using assms
proof (induction vs arbitrary: us t)
  case Nil
  then have "chain nx t [t]"
    by (auto simp: queue_ok_def dest: chain_suffix)
  with Nil show ?case
    by (subst queue_remove_loop.simps) (simp add: remove1_append)
next
  case (Cons v vs)
  then have "chain nx t (t # v # vs)"
    by (auto simp: queue_ok_def dest: chain_suffix)
  then have v: "nx t = v" "v \<noteq> NULL" by auto
  show ?case
  proof (cases "v = elm")
    case True
    with v have "queue_remove_loop nx q elm t =
      Some (nx(t := nx elm, elm := NULL), if m_last q = elm then q\<lparr>m_last := t\<rparr> else q)"
      by (subst queue_remove_loop.simps) simp
    moreover have "remove1 elm (us @ t # v # vs) = us @ t # vs"
      using True Cons.prems by (simp add: remove1_append)
    moreover have "queue_ok (nx(t := nx elm, elm := NULL))
      (if m_last q = elm then q\<lparr>m_last := t\<rparr> else q) (us @ t # vs)"
      using Cons.prems(1) True by (blast intro: queue_unlink)
    ultimately show ?thesis using True by fastforce
  next
    case False
    then have "queue_remove_loop nx q elm t = queue_remove_loop nx q elm v"
      using v by (subst queue_remove_loop.simps) simp
    moreover have "queue_ok nx q ((us @ [t]) @ v # vs)" using Cons.prems by simp
    ultimately show ?thesis
      using Cons.IH [of "us @ [t]" v] Cons.prems False by simp
  qed
qed

lemma queue_remove_ok:
  assumes "queue_ok nx q xs"
  shows "\<exists>nx' q'. QUEUE_REMOVE nx q t = Some (nx', q') \<and> queue_ok nx' q' (remove1 t xs) \<and>
           (\<forall>y. y \<notin> set xs \<longrightarrow> nx' y = nx y)"
proof (cases xs)
  case Nil
  with assms show ?thesis by (simp add: queue_ok_def QUEUE_REMOVE_def)
next
  case (Cons x ys)
  with assms have x: "m_first q = x" "x \<noteq> NULL" by (auto simp: queue_ok_def)
  show ?thesis
  proof (cases "x = t")
    case True
    with x Cons assms show ?thesis
      by (simp add: QUEUE_REMOVE_def queue_ok_remove_head)
  next
    case False
    with x Cons assms queue_remove_loop_ok [of nx q "[]" x ys t] show ?thesis
      by (auto simp: QUEUE_REMOVE_def)
  qed
qed

section \<open>The interface the synchronisation objects rely on\<close>

locale waiter_queue =
  fixes rep :: "'n \<Rightarrow> 'q \<Rightarrow> addr list \<Rightarrow> bool"
    and agree :: "addr set \<Rightarrow> 'n \<Rightarrow> 'n \<Rightarrow> bool"
    and empty :: 'q
    and first :: "'q \<Rightarrow> addr"
    and insert_tail :: "'n \<Rightarrow> 'q \<Rightarrow> addr \<Rightarrow> 'n \<times> 'q"
    and remove_head :: "'n \<Rightarrow> 'q \<Rightarrow> 'q"
    and find :: "'n \<Rightarrow> 'q \<Rightarrow> addr \<Rightarrow> addr option"
    and remove :: "'n \<Rightarrow> 'q \<Rightarrow> addr \<Rightarrow> ('n \<times> 'q) option"
    and collect :: "'n \<Rightarrow> 'q \<Rightarrow> addr list option"
  assumes rep_empty: "rep n empty []"
    and rep_first: "rep n q xs \<Longrightarrow> first q = (case xs of [] \<Rightarrow> NULL | x # _ \<Rightarrow> x)"
    and rep_nonnull: "rep n q xs \<Longrightarrow> NULL \<notin> set xs"
    and rep_distinct: "rep n q xs \<Longrightarrow> distinct xs"
    and rep_frame: "rep n q xs \<Longrightarrow> agree (set xs) n n' \<Longrightarrow> rep n' q xs"
    and agree_refl: "agree A n n"
    and rep_insert: "rep n q xs \<Longrightarrow> t \<noteq> NULL \<Longrightarrow> t \<notin> set xs \<Longrightarrow>
      case_prod rep (insert_tail n q t) (xs @ [t])"
    and insert_agree: "rep n q xs \<Longrightarrow> A \<inter> set xs = {} \<Longrightarrow> t \<notin> A \<Longrightarrow> agree A n (fst (insert_tail n q t))"
    and rep_remove_head: "rep n q (x # xs) \<Longrightarrow> rep n (remove_head n q) xs"
    and rep_find: "rep n q xs \<Longrightarrow> find n q t = Some (if t \<in> set xs then t else NULL)"
    and rep_remove: "rep n q xs \<Longrightarrow>
      \<exists>n' q'. remove n q t = Some (n', q') \<and> rep n' q' (remove1 t xs) \<and>
        (\<forall>A. A \<inter> set xs = {} \<longrightarrow> agree A n n')"
    and rep_collect: "rep n q xs \<Longrightarrow> collect n q = Some xs"
begin

lemma first_NULL_iff: "rep n q xs \<Longrightarrow> first q = NULL \<longleftrightarrow> xs = []"
  using rep_first [of n q xs] rep_nonnull [of n q xs] by (cases xs) auto

lemma first_eq_iff: "rep n q xs \<Longrightarrow> t \<noteq> NULL \<Longrightarrow> first q = t \<longleftrightarrow> (\<exists>ys. xs = t # ys)"
  using rep_first [of n q xs] by (cases xs) auto

text \<open>The search-then-append idiom: a thread enters a queue at most once, and only at its tail.\<close>

lemma enter_once:
  assumes "rep n q xs" "t \<noteq> NULL"
  shows "\<exists>w n' q'. find n q t = Some w \<and>
    (if w = NULL then insert_tail n q t else (n, q)) = (n', q') \<and>
    rep n' q' (if t \<in> set xs then xs else xs @ [t]) \<and>
    (\<forall>A. A \<inter> set xs = {} \<longrightarrow> t \<notin> A \<longrightarrow> agree A n n')"
proof (cases "t \<in> set xs")
  case True
  then have "find n q t = Some t" using rep_find [OF assms(1), of t] by simp
  with True assms show ?thesis by (simp add: agree_refl)
next
  case False
  then have "find n q t = Some NULL" using rep_find [OF assms(1), of t] by simp
  moreover obtain n' q' where i: "insert_tail n q t = (n', q')" by fastforce
  moreover have "rep n' q' (xs @ [t])"
    using rep_insert [OF assms False] i by simp
  moreover have "\<forall>A. A \<inter> set xs = {} \<longrightarrow> t \<notin> A \<longrightarrow> agree A n n'"
    using insert_agree [OF assms(1)] i by (metis fst_conv)
  ultimately show ?thesis using False by simp
qed

end

interpretation wq: waiter_queue queue_ok "\<lambda>A n n'. \<forall>x\<in>A. n' x = n x" QUEUE_INIT QUEUE_FIRST
  QUEUE_INSERT_TAIL QUEUE_REMOVE_HEAD "\<lambda>n q t. queue_find n t (QUEUE_FIRST q)" QUEUE_REMOVE
  "\<lambda>n q. queue_collect n (QUEUE_FIRST q) []"
proof unfold_locales
  show "\<forall>x\<in>A. fst (QUEUE_INSERT_TAIL n q t) x = n x" if "queue_ok n q xs" "A \<inter> set xs = {}" "t \<notin> A"
    for n q xs A t
    using that by (auto intro!: queue_insert_frame)
  show "\<exists>n' q'. QUEUE_REMOVE n q t = Some (n', q') \<and> queue_ok n' q' (remove1 t xs) \<and>
      (\<forall>A. A \<inter> set xs = {} \<longrightarrow> (\<forall>x\<in>A. n' x = n x))" if "queue_ok n q xs" for n q xs t
    using queue_remove_ok [OF that, of t] by blast
qed (fact queue_ok_init queue_ok_first queue_find_ok queue_collect_ok queue_ok_nonnull queue_ok_distinct
  queue_ok_frame queue_ok_insert queue_ok_remove_head | simp)+

end
