(* ===== verification/Thread_Mutex.thy ===== *)
theory Thread_Mutex
  imports Trts_Range Thread_Queue Spinlock
begin

text \<open>
  Trusted mutexes (\<^verbatim>\<open>sdk/tlibthread/sethread_mutex.cpp\<close>). Every operation is one critical section under
  the object's spin lock; \<^verbatim>\<open>sgx_thread_mutex_lock\<close> is a loop of such sections with an untrusted wait
  in between. \<open>mutex_spec\<close> is the abstract mutex (kind, owner, recursion count, waiting line); each
  critical section refines one of its operations. The transition system interleaves the critical
  sections of all threads, with wake-ups that may be spurious, and carries the ghost count of
  acquisitions, the set of waiting threads and the set of threads with a wake-up on the way.

  Events are named by the thread's data address; the code passes the TCS at a fixed offset from it.
\<close>

section \<open>The code\<close>

record sgx_thread_mutex =
  m_refcount :: u64
  m_control :: u32
  m_lock :: u32
  m_owner :: addr
  m_queue :: sgx_thread_queue

abbreviation (input) SGX_THREAD_MUTEX_NONRECURSIVE :: u32 where "SGX_THREAD_MUTEX_NONRECURSIVE \<equiv> 1"
abbreviation (input) SGX_THREAD_MUTEX_RECURSIVE :: u32 where "SGX_THREAD_MUTEX_RECURSIVE \<equiv> 2"
abbreviation (input) sizeof_mutex :: u64 where "sizeof_mutex \<equiv> 40"

definition CHECK_PARAMETER :: "enclave_range \<Rightarrow> addr \<Rightarrow> u64 \<Rightarrow> bool" where
  "CHECK_PARAMETER e p sz \<longleftrightarrow> \<not> (p = NULL \<or> \<not> sgx_is_within_enclave e p sz)"

definition mutex_spin_unlock :: "sgx_thread_mutex \<Rightarrow> sgx_thread_mutex" where
  "mutex_spin_unlock m = m\<lparr>m_lock := sgx_spin_unlock (m_lock m)\<rparr>"

definition sgx_thread_mutex_init ::
  "enclave_range \<Rightarrow> addr \<Rightarrow> sgx_thread_mutex \<Rightarrow> int \<times> sgx_thread_mutex" where
  "sgx_thread_mutex_init e p m =
     (if \<not> CHECK_PARAMETER e p sizeof_mutex then (EINVAL, m)
      else (0, m\<lparr>m_control := SGX_THREAD_MUTEX_NONRECURSIVE, m_refcount := 0, m_owner := NULL,
                 m_lock := 0, m_queue := QUEUE_INIT\<rparr>))"

definition sgx_thread_mutex_destroy ::
  "enclave_range \<Rightarrow> addr \<Rightarrow> sgx_thread_mutex \<Rightarrow> (int \<times> sgx_thread_mutex) option" where
  "sgx_thread_mutex_destroy e p m =
     (if \<not> CHECK_PARAMETER e p sizeof_mutex then Some (EINVAL, m)
      else do {
        l \<leftarrow> sgx_spin_lock (m_lock m);
        let m = m\<lparr>m_lock := l\<rparr>;
        if m_owner m \<noteq> NULL \<or> QUEUE_FIRST (m_queue m) \<noteq> NULL then Some (EBUSY, mutex_spin_unlock m)
        else Some (0, mutex_spin_unlock (m\<lparr>m_control := 0, m_refcount := 0\<rparr>))
      })"

text \<open>One turn of a blocking operation's loop: it returns, or goes out to wait for an event.\<close>

datatype turn = Return int | Wait

definition mutex_lock_turn ::
  "addr \<Rightarrow> tstore \<Rightarrow> sgx_thread_mutex \<Rightarrow> (turn \<times> tstore \<times> sgx_thread_mutex) option" where
  "mutex_lock_turn self nx m = do {
     l \<leftarrow> sgx_spin_lock (m_lock m);
     let m = m\<lparr>m_lock := l\<rparr>;
     if m_control m \<noteq> SGX_THREAD_MUTEX_RECURSIVE \<and> m_control m \<noteq> SGX_THREAD_MUTEX_NONRECURSIVE
     then Some (Return EINVAL, nx, mutex_spin_unlock m)
     else if m_control m = SGX_THREAD_MUTEX_RECURSIVE \<and> m_owner m = self
     then Some (Return 0, nx, mutex_spin_unlock (m\<lparr>m_refcount := m_refcount m + 1\<rparr>))
     else if m_owner m = NULL \<and>
             (QUEUE_FIRST (m_queue m) = self \<or> QUEUE_FIRST (m_queue m) = NULL)
     then let m = (if QUEUE_FIRST (m_queue m) = self
                   then m\<lparr>m_queue := QUEUE_REMOVE_HEAD nx (m_queue m)\<rparr> else m);
              m = m\<lparr>m_owner := self\<rparr>;
              m = m\<lparr>m_refcount := m_refcount m + 1\<rparr>
          in Some (Return 0, nx, mutex_spin_unlock m)
     else do {
       waiter \<leftarrow> queue_find nx self (QUEUE_FIRST (m_queue m));
       let (nx, q) = (if waiter = NULL then QUEUE_INSERT_TAIL nx (m_queue m) self
                      else (nx, m_queue m));
       Some (Wait, nx, mutex_spin_unlock (m\<lparr>m_queue := q\<rparr>))
     }
   }"

text \<open>
  The loop of \<^verbatim>\<open>sgx_thread_mutex_lock\<close>. \<open>env k\<close> is what all other threads do to the shared state while
  this one is outside in its \<open>k\<close>-th \<^verbatim>\<open>sgx_thread_wait_untrusted_event_ocall\<close>, whose result the code
  ignores.
\<close>

type_synonym mutex_env = "nat \<Rightarrow> tstore \<Rightarrow> sgx_thread_mutex \<Rightarrow> tstore \<times> sgx_thread_mutex"

partial_function (option) mutex_lock_loop ::
  "mutex_env \<Rightarrow> nat \<Rightarrow> addr \<Rightarrow> tstore \<Rightarrow> sgx_thread_mutex \<Rightarrow> (int \<times> tstore \<times> sgx_thread_mutex) option" where
  "mutex_lock_loop env k self nx m = do {
     (r, nx, m) \<leftarrow> mutex_lock_turn self nx m;
     (case r of
        Return rc \<Rightarrow> Some (rc, nx, m)
      | Wait \<Rightarrow> (case env k nx m of (nx, m) \<Rightarrow> mutex_lock_loop env (Suc k) self nx m))
   }"

definition sgx_thread_mutex_lock ::
  "enclave_range \<Rightarrow> addr \<Rightarrow> mutex_env \<Rightarrow> addr \<Rightarrow> tstore \<Rightarrow> sgx_thread_mutex \<Rightarrow>
   (int \<times> tstore \<times> sgx_thread_mutex) option" where
  "sgx_thread_mutex_lock e p env self nx m =
     (if \<not> CHECK_PARAMETER e p sizeof_mutex then Some (EINVAL, nx, m)
      else mutex_lock_loop env 0 self nx m)"

definition sgx_thread_mutex_trylock ::
  "enclave_range \<Rightarrow> addr \<Rightarrow> addr \<Rightarrow> tstore \<Rightarrow> sgx_thread_mutex \<Rightarrow> (int \<times> sgx_thread_mutex) option" where
  "sgx_thread_mutex_trylock e p self nx m =
     (if \<not> CHECK_PARAMETER e p sizeof_mutex then Some (EINVAL, m)
      else do {
        l \<leftarrow> sgx_spin_lock (m_lock m);
        let m = m\<lparr>m_lock := l\<rparr>;
        if m_control m \<noteq> SGX_THREAD_MUTEX_RECURSIVE \<and> m_control m \<noteq> SGX_THREAD_MUTEX_NONRECURSIVE
        then Some (EINVAL, mutex_spin_unlock m)
        else if m_control m = SGX_THREAD_MUTEX_RECURSIVE \<and> m_owner m = self
        then Some (0, mutex_spin_unlock (m\<lparr>m_refcount := m_refcount m + 1\<rparr>))
        else if m_owner m = NULL \<and>
                (QUEUE_FIRST (m_queue m) = self \<or> QUEUE_FIRST (m_queue m) = NULL)
        then let m = (if QUEUE_FIRST (m_queue m) = self
                      then m\<lparr>m_queue := QUEUE_REMOVE_HEAD nx (m_queue m)\<rparr> else m);
                 m = m\<lparr>m_owner := self\<rparr>;
                 m = m\<lparr>m_refcount := m_refcount m + 1\<rparr>
             in Some (0, mutex_spin_unlock m)
        else Some (EBUSY, mutex_spin_unlock m)
      })"

text \<open>The second component is what is stored through \<^verbatim>\<open>pwaiter\<close>, if anything.\<close>

definition sgx_thread_mutex_unlock_lazy ::
  "enclave_range \<Rightarrow> addr \<Rightarrow> addr \<Rightarrow> sgx_thread_mutex \<Rightarrow> (int \<times> addr option \<times> sgx_thread_mutex) option" where
  "sgx_thread_mutex_unlock_lazy e p self m =
     (if \<not> CHECK_PARAMETER e p sizeof_mutex then Some (EINVAL, None, m)
      else do {
        l \<leftarrow> sgx_spin_lock (m_lock m);
        let m = m\<lparr>m_lock := l\<rparr>;
        if m_control m \<noteq> SGX_THREAD_MUTEX_RECURSIVE \<and> m_control m \<noteq> SGX_THREAD_MUTEX_NONRECURSIVE
        then Some (EINVAL, None, mutex_spin_unlock m)
        else if m_owner m = NULL then Some (EPERM, None, mutex_spin_unlock m)
        else if m_owner m \<noteq> self then Some (EPERM, None, mutex_spin_unlock m)
        else let m = m\<lparr>m_refcount := m_refcount m - 1\<rparr> in
          if m_refcount m = 0
          then let m = m\<lparr>m_owner := NULL\<rparr>; waiter = QUEUE_FIRST (m_queue m)
               in Some (0, Some waiter, mutex_spin_unlock m)
          else Some (0, None, mutex_spin_unlock m)
      })"

text \<open>The second component lists the threads \<^verbatim>\<open>sgx_thread_set_untrusted_event_ocall\<close> is made for.\<close>

definition sgx_thread_mutex_unlock ::
  "enclave_range \<Rightarrow> addr \<Rightarrow> addr \<Rightarrow> sgx_thread_mutex \<Rightarrow> (int \<times> addr list \<times> sgx_thread_mutex) option" where
  "sgx_thread_mutex_unlock e p self m = do {
     (ret, w, m) \<leftarrow> sgx_thread_mutex_unlock_lazy e p self m;
     let waiter = (case w of None \<Rightarrow> NULL | Some w \<Rightarrow> w);
     if ret \<noteq> 0 then Some (ret, [], m)
     else if waiter \<noteq> NULL then Some (0, [waiter], m)
     else Some (0, [], m)
   }"

section \<open>The abstract mutex\<close>

datatype mutex_kind = Nonrecursive | Recursive | Invalid

record mutex_spec =
  ms_kind :: mutex_kind
  ms_owner :: "addr option"
  ms_count :: nat
  ms_waiters :: "addr list"

definition spec_acquire :: "addr \<Rightarrow> mutex_spec \<Rightarrow> mutex_spec option" where
  "spec_acquire t a =
     (if ms_kind a = Recursive \<and> ms_owner a = Some t then Some (a\<lparr>ms_count := ms_count a + 1\<rparr>)
      else if ms_owner a = None \<and> (ms_waiters a = [] \<or> hd (ms_waiters a) = t)
      then Some (a\<lparr>ms_owner := Some t, ms_count := ms_count a + 1, ms_waiters := tl (ms_waiters a)\<rparr>)
      else None)"

definition spec_lock :: "addr \<Rightarrow> mutex_spec \<Rightarrow> turn \<times> mutex_spec" where
  "spec_lock t a =
     (if ms_kind a = Invalid then (Return EINVAL, a)
      else case spec_acquire t a of
             Some a' \<Rightarrow> (Return 0, a')
           | None \<Rightarrow> (Wait, a\<lparr>ms_waiters := (if t \<in> set (ms_waiters a) then ms_waiters a
                                        else ms_waiters a @ [t])\<rparr>))"

definition spec_trylock :: "addr \<Rightarrow> mutex_spec \<Rightarrow> int \<times> mutex_spec" where
  "spec_trylock t a =
     (if ms_kind a = Invalid then (EINVAL, a)
      else case spec_acquire t a of Some a' \<Rightarrow> (0, a') | None \<Rightarrow> (EBUSY, a))"

definition spec_unlock :: "addr \<Rightarrow> mutex_spec \<Rightarrow> int \<times> addr list \<times> mutex_spec" where
  "spec_unlock t a =
     (if ms_kind a = Invalid then (EINVAL, [], a)
      else if ms_owner a \<noteq> Some t then (EPERM, [], a)
      else if ms_count a > 1 then (0, [], a\<lparr>ms_count := ms_count a - 1\<rparr>)
      else (0, take 1 (ms_waiters a), a\<lparr>ms_owner := None, ms_count := 0\<rparr>))"

definition spec_destroy :: "mutex_spec \<Rightarrow> int \<times> mutex_spec" where
  "spec_destroy a =
     (if ms_owner a \<noteq> None \<or> ms_waiters a \<noteq> [] then (EBUSY, a)
      else (0, a\<lparr>ms_kind := Invalid, ms_count := 0\<rparr>))"

definition mutex_kind_of :: "u32 \<Rightarrow> mutex_kind" where
  "mutex_kind_of c =
     (if c = SGX_THREAD_MUTEX_NONRECURSIVE then Nonrecursive
      else if c = SGX_THREAD_MUTEX_RECURSIVE then Recursive else Invalid)"

definition mutex_rel :: "tstore \<Rightarrow> sgx_thread_mutex \<Rightarrow> mutex_spec \<Rightarrow> bool" where
  "mutex_rel nx m a \<longleftrightarrow>
     m_lock m = 0 \<and> ms_kind a = mutex_kind_of (m_control m) \<and>
     ms_owner a = (if m_owner m = NULL then None else Some (m_owner m)) \<and>
     ms_count a = unat (m_refcount m) \<and>
     (m_owner m \<noteq> NULL \<longrightarrow> m_refcount m \<noteq> 0) \<and>
     queue_ok nx (m_queue m) (ms_waiters a)"

section \<open>Every critical section refines the abstract operation\<close>

lemmas mutex_rel_simps =
  mutex_rel_def mutex_spin_unlock_def mutex_kind_of_def

lemma mutex_rel_frame:
  "mutex_rel nx m a \<Longrightarrow> \<forall>x\<in>set (ms_waiters a). nx' x = nx x \<Longrightarrow> mutex_rel nx' m a"
  unfolding mutex_rel_def using wq.rep_frame [of nx "m_queue m" "ms_waiters a" nx'] by blast

lemma mutex_rel_queue: "mutex_rel nx m a \<Longrightarrow> queue_ok nx (m_queue m) (ms_waiters a)"
  by (simp add: mutex_rel_def)

lemma mutex_rel_first:
  assumes "mutex_rel nx m a" "t \<noteq> NULL"
  shows "QUEUE_FIRST (m_queue m) = NULL \<longleftrightarrow> ms_waiters a = []"
    and "QUEUE_FIRST (m_queue m) = t \<longleftrightarrow> ms_waiters a \<noteq> [] \<and> hd (ms_waiters a) = t"
  using wq.first_NULL_iff [OF mutex_rel_queue] wq.first_eq_iff [OF mutex_rel_queue] assms
  by (force simp: neq_Nil_conv)+

lemma mutex_rel_dequeue:
  assumes "mutex_rel nx m a" "ms_waiters a \<noteq> []"
  shows "queue_ok nx (QUEUE_REMOVE_HEAD nx (m_queue m)) (tl (ms_waiters a))"
  using assms mutex_rel_queue [of nx m a] wq.rep_remove_head by (cases "ms_waiters a") auto

lemma mutex_rel_spin [simp]: "mutex_rel nx m a \<Longrightarrow> sgx_spin_lock (m_lock m) = Some 1"
  by (simp add: mutex_rel_def)

lemma mutex_lock_turn_refines:
  assumes R: "mutex_rel nx m a" and t: "t \<noteq> NULL" and c: "ms_count a < 2 ^ 64 - 1"
  shows "\<exists>nx' m'. mutex_lock_turn t nx m = Some (fst (spec_lock t a), nx', m') \<and>
    mutex_rel nx' m' (snd (spec_lock t a)) \<and>
    (\<forall>A. A \<inter> set (ms_waiters a) = {} \<longrightarrow> t \<notin> A \<longrightarrow> (\<forall>x\<in>A. nx' x = nx x))"
proof -
  note spin = mutex_rel_spin [OF R]
  note first = mutex_rel_first [OF R t]
  have inc: "unat (m_refcount m + 1) = ms_count a + 1"
    using R c by (simp add: mutex_rel_def unat_inc)
  then have inc0: "m_refcount m + 1 \<noteq> 0" by (metis add_is_0 one_neq_zero unat_0)
  consider (bad) "ms_kind a = Invalid"
    | (re) "ms_kind a = Recursive" "ms_owner a = Some t"
    | (free) "ms_kind a \<noteq> Invalid" "ms_owner a = None" "ms_waiters a = [] \<or> hd (ms_waiters a) = t"
    | (wait) "ms_kind a \<noteq> Invalid" "spec_acquire t a = None"
    by (cases "spec_acquire t a") (auto simp: spec_acquire_def split: if_splits)
  then show ?thesis
  proof cases
    case bad
    with R spin have "mutex_lock_turn t nx m = Some (Return EINVAL, nx, m\<lparr>m_lock := 0\<rparr>)"
      by (auto simp: mutex_lock_turn_def mutex_rel_simps split: if_splits)
    with R bad show ?thesis by (auto simp: spec_lock_def mutex_rel_def)
  next
    case re
    then have o: "m_owner m = t" "m_control m = SGX_THREAD_MUTEX_RECURSIVE"
      using R by (auto simp: mutex_rel_simps split: if_splits)
    with spin have "mutex_lock_turn t nx m =
        Some (Return 0, nx, m\<lparr>m_refcount := m_refcount m + 1, m_lock := 0\<rparr>)"
      by (simp add: mutex_lock_turn_def mutex_spin_unlock_def)
    with R re inc inc0 show ?thesis by (simp add: spec_lock_def spec_acquire_def mutex_rel_def)
  next
    case free
    then have o: "m_owner m = NULL"
        "m_control m = SGX_THREAD_MUTEX_RECURSIVE \<or> m_control m = SGX_THREAD_MUTEX_NONRECURSIVE"
      using R by (auto simp: mutex_rel_simps split: if_splits)
    define q where "q = (if QUEUE_FIRST (m_queue m) = t then QUEUE_REMOVE_HEAD nx (m_queue m) else m_queue m)"
    have q: "queue_ok nx q (tl (ms_waiters a))"
      using free first mutex_rel_dequeue [OF R] mutex_rel_queue [OF R] by (auto simp: q_def)
    have "mutex_lock_turn t nx m = Some (Return 0, nx,
        m\<lparr>m_queue := q, m_owner := t, m_refcount := m_refcount m + 1, m_lock := 0\<rparr>)"
      using free first o spin t by (auto simp: mutex_lock_turn_def mutex_spin_unlock_def q_def Let_def)
    moreover have "spec_lock t a = (Return 0, a\<lparr>ms_owner := Some t, ms_count := ms_count a + 1,
        ms_waiters := tl (ms_waiters a)\<rparr>)"
      using free by (simp add: spec_lock_def spec_acquire_def)
    ultimately show ?thesis using R q t inc inc0 by (simp add: mutex_rel_def)
  next
    case wait
    then have o: "\<not> (m_owner m = NULL \<and> (QUEUE_FIRST (m_queue m) = t \<or> QUEUE_FIRST (m_queue m) = NULL))"
        "\<not> (m_control m = SGX_THREAD_MUTEX_RECURSIVE \<and> m_owner m = t)"
        "m_control m = SGX_THREAD_MUTEX_RECURSIVE \<or> m_control m = SGX_THREAD_MUTEX_NONRECURSIVE"
      using R first t by (auto simp: mutex_rel_simps spec_acquire_def split: if_splits)
    obtain w nx' q' where q: "queue_find nx t (QUEUE_FIRST (m_queue m)) = Some w"
      "(if w = NULL then QUEUE_INSERT_TAIL nx (m_queue m) t else (nx, m_queue m)) = (nx', q')"
      "queue_ok nx' q' (if t \<in> set (ms_waiters a) then ms_waiters a else ms_waiters a @ [t])"
      "\<forall>A. A \<inter> set (ms_waiters a) = {} \<longrightarrow> t \<notin> A \<longrightarrow> (\<forall>x\<in>A. nx' x = nx x)"
      using wq.enter_once [OF mutex_rel_queue [OF R] t] by blast
    have "mutex_lock_turn t nx m = Some (Wait, nx', m\<lparr>m_queue := q', m_lock := 0\<rparr>)"
      using o spin q(1,2) by (auto simp: mutex_lock_turn_def mutex_spin_unlock_def Let_def)
    moreover have "spec_lock t a = (Wait, a\<lparr>ms_waiters := (if t \<in> set (ms_waiters a) then ms_waiters a
        else ms_waiters a @ [t])\<rparr>)"
      using wait by (simp add: spec_lock_def)
    ultimately show ?thesis using R q(3,4) by (simp add: mutex_rel_def)
  qed
qed

lemma sgx_thread_mutex_trylock_turn:
  assumes R: "mutex_rel nx m a" and t: "t \<noteq> NULL" and e: "CHECK_PARAMETER e p sizeof_mutex"
    and l: "mutex_lock_turn t nx m = Some (r, nx', m')"
  shows "sgx_thread_mutex_trylock e p t nx m =
    Some (case r of Return rc \<Rightarrow> (rc, m') | Wait \<Rightarrow> (EBUSY, m\<lparr>m_lock := 0\<rparr>))"
  using l mutex_rel_spin [OF R] e
  by (auto simp: mutex_lock_turn_def sgx_thread_mutex_trylock_def mutex_spin_unlock_def Let_def
      split: if_splits Option.bind_splits prod.splits)

lemma sgx_thread_mutex_trylock_refines:
  assumes R: "mutex_rel nx m a" and t: "t \<noteq> NULL" and c: "ms_count a < 2 ^ 64 - 1"
    and e: "CHECK_PARAMETER e p sizeof_mutex"
  shows "\<exists>m'. sgx_thread_mutex_trylock e p t nx m = Some (fst (spec_trylock t a), m') \<and>
    mutex_rel nx m' (snd (spec_trylock t a))"
proof -
  obtain nx' m' where l: "mutex_lock_turn t nx m = Some (fst (spec_lock t a), nx', m')"
    "mutex_rel nx' m' (snd (spec_lock t a))"
    using mutex_lock_turn_refines [OF R t c] by blast
  note tl = sgx_thread_mutex_trylock_turn [OF R t e l(1)]
  have same: "mutex_rel nx (m\<lparr>m_lock := 0\<rparr>) a" using R by (simp add: mutex_rel_def)
  show ?thesis
  proof (cases "fst (spec_lock t a)")
    case Wait
    then have "spec_trylock t a = (EBUSY, a)"
      by (auto simp: spec_lock_def spec_trylock_def split: if_splits option.splits)
    with tl Wait same show ?thesis by simp
  next
    case (Return rc)
    then have "spec_trylock t a = (rc, snd (spec_lock t a))"
      by (auto simp: spec_lock_def spec_trylock_def split: if_splits option.splits)
    moreover have "nx' = nx"
      using l(1) Return mutex_rel_spin [OF R]
      by (auto simp: mutex_lock_turn_def Let_def split: if_splits Option.bind_splits prod.splits)
    ultimately show ?thesis using tl Return l(2) by simp
  qed
qed

lemma sgx_thread_mutex_unlock_refines:
  assumes R: "mutex_rel nx m a" and t: "t \<noteq> NULL" and e: "CHECK_PARAMETER e p sizeof_mutex"
  shows "\<exists>m'. sgx_thread_mutex_unlock e p t m = Some (fst (spec_unlock t a), fst (snd (spec_unlock t a)), m') \<and>
    mutex_rel nx m' (snd (snd (spec_unlock t a)))"
proof -
  note spin = mutex_rel_spin [OF R]
  have same: "m\<lparr>m_lock := 0\<rparr> = m" using R by (simp add: mutex_rel_def)
  consider (bad) "ms_kind a = Invalid" | (perm) "ms_kind a \<noteq> Invalid" "ms_owner a \<noteq> Some t"
    | (own) "ms_kind a \<noteq> Invalid" "ms_owner a = Some t" by blast
  then show ?thesis
  proof cases
    case bad
    with R e spin have "sgx_thread_mutex_unlock e p t m = Some (EINVAL, [], m\<lparr>m_lock := 0\<rparr>)"
      by (simp add: sgx_thread_mutex_unlock_def sgx_thread_mutex_unlock_lazy_def mutex_rel_simps split: if_splits)
    with bad R same show ?thesis by (simp add: spec_unlock_def)
  next
    case perm
    with R e spin t have "sgx_thread_mutex_unlock e p t m = Some (EPERM, [], m\<lparr>m_lock := 0\<rparr>)"
      by (simp add: sgx_thread_mutex_unlock_def sgx_thread_mutex_unlock_lazy_def mutex_rel_simps split: if_splits)
    with perm R same show ?thesis by (simp add: spec_unlock_def)
  next
    case own
    then have o: "m_owner m = t"
        "m_control m = SGX_THREAD_MUTEX_RECURSIVE \<or> m_control m = SGX_THREAD_MUTEX_NONRECURSIVE"
        and c: "m_refcount m \<noteq> 0" "unat (m_refcount m) = ms_count a"
      using R t by (auto simp: mutex_rel_simps split: if_splits)
    have ev: "(if QUEUE_FIRST (m_queue m) \<noteq> NULL then [QUEUE_FIRST (m_queue m)] else []) = take 1 (ms_waiters a)"
      using wq.rep_first [OF mutex_rel_queue [OF R]] wq.rep_nonnull [OF mutex_rel_queue [OF R]]
      by (cases "ms_waiters a") auto
    have "sgx_thread_mutex_unlock e p t m =
      (if ms_count a = 1
       then Some (0, take 1 (ms_waiters a), m\<lparr>m_refcount := m_refcount m - 1, m_owner := NULL, m_lock := 0\<rparr>)
       else Some (0, [], m\<lparr>m_refcount := m_refcount m - 1, m_lock := 0\<rparr>))"
      using o e spin t dec_eq_0_iff [of "m_refcount m", unfolded c(2)] unfolding ev [symmetric]
      by (auto simp: sgx_thread_mutex_unlock_def sgx_thread_mutex_unlock_lazy_def mutex_spin_unlock_def Let_def)
    moreover have "0 < ms_count a" using c by (metis unat_gt_0)
    ultimately show ?thesis
      using own R c unat_dec [OF c(1)] dec_eq_0_iff [of "m_refcount m", unfolded c(2)] by (auto simp: spec_unlock_def mutex_rel_def)
  qed
qed

lemma sgx_thread_mutex_destroy_refines:
  assumes R: "mutex_rel nx m a" and e: "CHECK_PARAMETER e p sizeof_mutex"
  shows "\<exists>m'. sgx_thread_mutex_destroy e p m = Some (fst (spec_destroy a), m') \<and>
    mutex_rel nx m' (snd (spec_destroy a))"
proof -
  have "m_owner m \<noteq> NULL \<or> QUEUE_FIRST (m_queue m) \<noteq> NULL \<longleftrightarrow> ms_owner a \<noteq> None \<or> ms_waiters a \<noteq> []"
    using R wq.first_NULL_iff [OF mutex_rel_queue [OF R]] by (simp add: mutex_rel_def)
  moreover have "m\<lparr>m_lock := 0\<rparr> = m" using R by (simp add: mutex_rel_def)
  ultimately show ?thesis
    using R e mutex_rel_spin [OF R]
    by (auto simp: sgx_thread_mutex_destroy_def spec_destroy_def mutex_rel_simps)
qed

definition spec_mutex_init :: mutex_spec where
  "spec_mutex_init = \<lparr>ms_kind = Nonrecursive, ms_owner = None, ms_count = 0, ms_waiters = []\<rparr>"

lemma sgx_thread_mutex_init_refines:
  "CHECK_PARAMETER e p sizeof_mutex \<Longrightarrow>
   fst (sgx_thread_mutex_init e p m) = 0 \<and> mutex_rel nx (snd (sgx_thread_mutex_init e p m)) spec_mutex_init"
  by (simp add: sgx_thread_mutex_init_def spec_mutex_init_def mutex_rel_simps queue_ok_init)

section \<open>Threads competing for one mutex\<close>

text \<open>
  The shared state and three ghosts: \<open>blocked\<close>, the threads outside in their wait; \<open>pending\<close>, the
  threads a wake-up was requested for and that have not returned from a wait since; \<open>holds t\<close>, how
  many of \<open>t\<close>'s acquisitions are not yet released.
\<close>

record mutex_sys =
  sys_next :: tstore
  sys_mutex :: sgx_thread_mutex
  blocked :: "addr set"
  pending :: "addr set"
  holds :: "addr \<Rightarrow> nat"

definition after_turn :: "addr \<Rightarrow> turn \<Rightarrow> mutex_sys \<Rightarrow> mutex_sys" where
  "after_turn t r s =
     (case r of
        Wait \<Rightarrow> s\<lparr>blocked := insert t (blocked s)\<rparr>
      | Return rc \<Rightarrow> s\<lparr>blocked := blocked s - {t},
                      holds := (if rc = 0 then (holds s)(t := holds s t + 1) else holds s)\<rparr>)"

text \<open>
  A thread runs the library's operations one critical section at a time; a waiting thread may resume
  at any moment, whether or not its event was set (the wait is an OCALL, so the untrusted side
  decides). \<open>other\<close> covers all queue traffic of other synchronisation objects. The recursion count is
  assumed not to pass \<^verbatim>\<open>SIZE_MAX\<close>.
\<close>

inductive mutex_step :: "enclave_range \<Rightarrow> addr \<Rightarrow> mutex_sys \<Rightarrow> mutex_sys \<Rightarrow> bool" for e p where
  lock: "t \<noteq> NULL \<Longrightarrow> t \<notin> blocked s \<Longrightarrow> m_refcount (sys_mutex s) \<noteq> SIZE_MAX \<Longrightarrow>
    mutex_lock_turn t (sys_next s) (sys_mutex s) = Some (r, nx, m) \<Longrightarrow>
    mutex_step e p s (after_turn t r (s\<lparr>sys_next := nx, sys_mutex := m\<rparr>))"
| resume: "t \<in> blocked s \<Longrightarrow> m_refcount (sys_mutex s) \<noteq> SIZE_MAX \<Longrightarrow>
    mutex_lock_turn t (sys_next s) (sys_mutex s) = Some (r, nx, m) \<Longrightarrow>
    mutex_step e p s (after_turn t r (s\<lparr>sys_next := nx, sys_mutex := m, pending := pending s - {t}\<rparr>))"
| trylock: "t \<noteq> NULL \<Longrightarrow> t \<notin> blocked s \<Longrightarrow> m_refcount (sys_mutex s) \<noteq> SIZE_MAX \<Longrightarrow>
    sgx_thread_mutex_trylock e p t (sys_next s) (sys_mutex s) = Some (rc, m) \<Longrightarrow>
    mutex_step e p s (after_turn t (Return rc) (s\<lparr>sys_mutex := m\<rparr>))"
| unlock: "t \<noteq> NULL \<Longrightarrow> t \<notin> blocked s \<Longrightarrow>
    sgx_thread_mutex_unlock e p t (sys_mutex s) = Some (rc, events, m) \<Longrightarrow>
    mutex_step e p s (s\<lparr>sys_mutex := m, pending := pending s \<union> set events,
      holds := (if rc = 0 then (holds s)(t := holds s t - 1) else holds s)\<rparr>)"
| destroy: "sgx_thread_mutex_destroy e p (sys_mutex s) = Some (rc, m) \<Longrightarrow>
    mutex_step e p s (s\<lparr>sys_mutex := m\<rparr>)"
| other: "\<forall>t\<in>blocked s. nx t = sys_next s t \<Longrightarrow> mutex_step e p s (s\<lparr>sys_next := nx\<rparr>)"

inductive_cases mutex_stepE: "mutex_step e p s s'"

text \<open>Initial states: a mutex set up by \<^verbatim>\<open>sgx_thread_mutex_init\<close> or by either static initializer.\<close>

definition mutex_sys_init :: "enclave_range \<Rightarrow> addr \<Rightarrow> mutex_sys \<Rightarrow> bool" where
  "mutex_sys_init e p s \<longleftrightarrow>
     CHECK_PARAMETER e p sizeof_mutex \<and> blocked s = {} \<and> holds s = (\<lambda>_. 0) \<and>
     ((\<exists>m. sys_mutex s = snd (sgx_thread_mutex_init e p m)) \<or>
      (\<exists>c \<in> {SGX_THREAD_MUTEX_NONRECURSIVE, SGX_THREAD_MUTEX_RECURSIVE}.
         sys_mutex s = \<lparr>m_refcount = 0, m_control = c, m_lock = 0, m_owner = NULL, m_queue = QUEUE_INIT\<rparr>))"

definition mutex_ghost :: "mutex_spec \<Rightarrow> addr set \<Rightarrow> addr set \<Rightarrow> (addr \<Rightarrow> nat) \<Rightarrow> bool" where
  "mutex_ghost a B P H \<longleftrightarrow>
     set (ms_waiters a) = B \<and> H = (\<lambda>t. if ms_owner a = Some t then ms_count a else 0) \<and>
     (ms_owner a = None \<longleftrightarrow> ms_count a = 0) \<and> (ms_kind a = Nonrecursive \<longrightarrow> ms_count a \<le> 1) \<and>
     (ms_kind a = Invalid \<longrightarrow> ms_owner a = None \<and> ms_waiters a = []) \<and>
     (ms_kind a = Recursive \<longrightarrow> (\<forall>t. ms_owner a = Some t \<longrightarrow> t \<notin> B)) \<and>
     (ms_owner a = None \<and> ms_waiters a \<noteq> [] \<longrightarrow> hd (ms_waiters a) \<in> P)"

definition mutex_sys_inv :: "enclave_range \<Rightarrow> addr \<Rightarrow> mutex_sys \<Rightarrow> bool" where
  "mutex_sys_inv e p s \<longleftrightarrow> CHECK_PARAMETER e p sizeof_mutex \<and>
     (\<exists>a. mutex_rel (sys_next s) (sys_mutex s) a \<and> mutex_ghost a (blocked s) (pending s) (holds s))"

lemma ghost_acquire:
  assumes g: "mutex_ghost a B P H" and d: "distinct (ms_waiters a)" and a': "spec_acquire t a = Some a'"
    and k: "ms_kind a \<noteq> Invalid"
  shows "mutex_ghost a' (B - {t}) P' (H(t := H t + 1))"
proof (cases "ms_kind a = Recursive \<and> ms_owner a = Some t")
  case True
  with a' have "a' = a\<lparr>ms_count := ms_count a + 1\<rparr>" by (simp add: spec_acquire_def)
  moreover have "B - {t} = B" using True g by (simp add: mutex_ghost_def)
  ultimately show ?thesis using True g by (auto simp: mutex_ghost_def)
next
  case False
  with a' have f: "ms_owner a = None" "ms_waiters a = [] \<or> hd (ms_waiters a) = t"
    and a'_eq: "a' = a\<lparr>ms_owner := Some t, ms_count := ms_count a + 1, ms_waiters := tl (ms_waiters a)\<rparr>"
    by (auto simp: spec_acquire_def split: if_splits)
  then have "set (tl (ms_waiters a)) = B - {t}"
    using g d by (cases "ms_waiters a") (auto simp: mutex_ghost_def)
  then show ?thesis using f g k by (simp add: a'_eq mutex_ghost_def fun_eq_iff)
qed

lemma ghost_wait:
  assumes g: "mutex_ghost a B P H" and n: "spec_acquire t a = None" and P: "P - {t} \<subseteq> P'"
    and k: "ms_kind a \<noteq> Invalid"
  shows "mutex_ghost (a\<lparr>ms_waiters := (if t \<in> set (ms_waiters a) then ms_waiters a else ms_waiters a @ [t])\<rparr>)
    (insert t B) P' H"
proof -
  define ws where "ws = (if t \<in> set (ms_waiters a) then ms_waiters a else ms_waiters a @ [t])"
  have "ms_owner a = None \<Longrightarrow> ms_waiters a \<noteq> [] \<and> hd (ms_waiters a) \<noteq> t"
    and r: "ms_kind a = Recursive \<Longrightarrow> ms_owner a \<noteq> Some t"
    using n by (auto simp: spec_acquire_def split: if_splits)
  then have "ms_owner a = None \<Longrightarrow> hd ws \<in> P'"
    using g P by (auto simp: mutex_ghost_def ws_def)
  moreover have "set ws = insert t B" using g by (auto simp: mutex_ghost_def ws_def)
  ultimately have "mutex_ghost (a\<lparr>ms_waiters := ws\<rparr>) (insert t B) P' H"
    using g k r by (auto simp: mutex_ghost_def)
  then show ?thesis by (simp only: ws_def)
qed

lemma ghost_turn:
  fixes nx m
  assumes g: "mutex_ghost a (blocked s) (pending s) (holds s)" and d: "distinct (ms_waiters a)"
    and P: "pending s - {t} \<subseteq> P'"
  defines "s' \<equiv> after_turn t (fst (spec_lock t a)) (s\<lparr>sys_next := nx, sys_mutex := m, pending := P'\<rparr>)"
  shows "mutex_ghost (snd (spec_lock t a)) (blocked s') (pending s') (holds s')"
proof (cases "ms_kind a = Invalid")
  case True
  with g have "blocked s = {}" by (auto simp: mutex_ghost_def)
  with True g show ?thesis by (auto simp: s'_def after_turn_def spec_lock_def mutex_ghost_def)
next
  case False
  then show ?thesis
    using ghost_acquire [OF g d _ False, of t] ghost_wait [OF g _ P False]
    by (cases "spec_acquire t a") (simp_all add: s'_def after_turn_def spec_lock_def)
qed

lemma ghost_trylock:
  fixes m
  assumes g: "mutex_ghost a (blocked s) (pending s) (holds s)" and d: "distinct (ms_waiters a)"
    and t: "t \<notin> blocked s"
  defines "s' \<equiv> after_turn t (Return (fst (spec_trylock t a))) (s\<lparr>sys_mutex := m\<rparr>)"
  shows "mutex_ghost (snd (spec_trylock t a)) (blocked s') (pending s') (holds s')"
  using ghost_acquire [OF g d, of t] g t
  by (cases "spec_acquire t a") (simp_all add: s'_def after_turn_def spec_trylock_def)

lemma ghost_unlock:
  assumes g: "mutex_ghost a B P H"
  shows "mutex_ghost (snd (snd (spec_unlock t a))) B (P \<union> set (fst (snd (spec_unlock t a))))
    (if fst (spec_unlock t a) = 0 then H(t := H t - 1) else H)"
proof -
  have "P' = P \<union> set []" if "P' = P" for P' using that by simp
  with g show ?thesis
    by (cases "ms_waiters a") (auto simp: mutex_ghost_def spec_unlock_def)
qed

lemma ghost_destroy:
  "mutex_ghost a B P H \<Longrightarrow> mutex_ghost (snd (spec_destroy a)) B P H"
  by (auto simp: mutex_ghost_def spec_destroy_def)

lemma count_below_max: "mutex_rel nx m a \<Longrightarrow> m_refcount m \<noteq> SIZE_MAX \<Longrightarrow> ms_count a < 2 ^ 64 - 1"
proof -
  assume R: "mutex_rel nx m a" and n: "m_refcount m \<noteq> SIZE_MAX"
  have "unat (m_refcount m) \<noteq> 2 ^ 64 - 1"
  proof
    assume "unat (m_refcount m) = 2 ^ 64 - 1"
    then have "unat (m_refcount m) = unat (SIZE_MAX)"
      by (simp add: unsigned_minus_1_eq_mask mask_eq_exp_minus_1)
    with n show False by (simp only: word_unat_eq_iff [symmetric])
  qed
  then show ?thesis using R unat_u64 [of "m_refcount m"] by (simp add: mutex_rel_def)
qed

text \<open>Every step of the system is an operation of the abstract mutex, and keeps the ghosts in line.\<close>

definition spec_step :: "mutex_spec \<Rightarrow> mutex_spec \<Rightarrow> bool" where
  "spec_step a a' \<longleftrightarrow> a' = a \<or> a' = snd (spec_destroy a) \<or>
     (\<exists>t. a' = snd (spec_lock t a) \<or> a' = snd (spec_trylock t a) \<or> a' = snd (snd (spec_unlock t a)))"

lemma spec_stepI [intro]:
  "spec_step a a" "spec_step a (snd (spec_destroy a))" "spec_step a (snd (spec_lock t a))"
  "spec_step a (snd (spec_trylock t a))" "spec_step a (snd (snd (spec_unlock t a)))"
  by (auto simp: spec_step_def)

lemma after_turn_shared [simp]:
  "sys_next (after_turn t r u) = sys_next u" "sys_mutex (after_turn t r u) = sys_mutex u"
  by (simp_all add: after_turn_def split: turn.split)

lemma mutex_step_simulates:
  assumes c: "CHECK_PARAMETER e p sizeof_mutex" and R: "mutex_rel (sys_next s) (sys_mutex s) a"
    and g: "mutex_ghost a (blocked s) (pending s) (holds s)" and step: "mutex_step e p s s'"
  shows "\<exists>a'. spec_step a a' \<and> mutex_rel (sys_next s') (sys_mutex s') a' \<and>
    mutex_ghost a' (blocked s') (pending s') (holds s')"
proof -
  have d: "distinct (ms_waiters a)" using mutex_rel_queue [OF R] by (rule wq.rep_distinct)
  have nn: "t \<noteq> NULL" if "t \<in> blocked s" for t
    using that g wq.rep_nonnull [OF mutex_rel_queue [OF R]] by (auto simp: mutex_ghost_def)
  have turn: "\<exists>a'. spec_step a a' \<and> mutex_rel nx m a' \<and> mutex_ghost a' (blocked u) (pending u) (holds u)"
    if "mutex_lock_turn t (sys_next s) (sys_mutex s) = Some (r, nx, m)" "t \<noteq> NULL"
      "m_refcount (sys_mutex s) \<noteq> SIZE_MAX" "pending s - {t} \<subseteq> P'"
      "u = after_turn t r (s\<lparr>sys_next := nx, sys_mutex := m, pending := P'\<rparr>)" for t r nx m P' u
    using that mutex_lock_turn_refines [OF R that(2) count_below_max [OF R that(3)]]
      ghost_turn [OF g d that(4), where nx = nx and m = m] by auto
  from step show ?thesis
  proof cases
    case (lock t r nx m)
    then show ?thesis using turn [OF lock(5,2,4), of "pending s"] by simp
  next
    case (resume t r nx m)
    then show ?thesis using turn [OF resume(4) nn [OF resume(2)] resume(3), of "pending s - {t}"] by simp
  next
    case (trylock t rc m)
    then show ?thesis
      using sgx_thread_mutex_trylock_refines [OF R trylock(2) count_below_max [OF R trylock(4)] c]
        ghost_trylock [OF g d trylock(3), where m = m] by auto
  next
    case (unlock t rc events m)
    then show ?thesis
      using sgx_thread_mutex_unlock_refines [OF R unlock(2) c] ghost_unlock [OF g, of t] by auto
  next
    case (destroy rc m)
    then show ?thesis
      using sgx_thread_mutex_destroy_refines [OF R c] ghost_destroy [OF g] by auto
  next
    case (other nx)
    then have "mutex_rel nx (sys_mutex s) a"
      using g by (intro mutex_rel_frame [OF R]) (simp add: mutex_ghost_def)
    with other g show ?thesis by auto
  qed
qed

lemma mutex_sys_inv_step: "mutex_sys_inv e p s \<Longrightarrow> mutex_step e p s s' \<Longrightarrow> mutex_sys_inv e p s'"
  unfolding mutex_sys_inv_def using mutex_step_simulates by blast

interpretation mutex: invariant_system "mutex_sys_init e p" "mutex_step e p" "mutex_sys_inv e p"
proof unfold_locales
  show "mutex_sys_inv e p s" if "mutex_sys_init e p s" for s
  proof -
    have "mutex_rel (sys_next s) (sys_mutex s)
        \<lparr>ms_kind = mutex_kind_of (m_control (sys_mutex s)), ms_owner = None, ms_count = 0, ms_waiters = []\<rparr>"
      using that by (auto simp: mutex_sys_init_def sgx_thread_mutex_init_def mutex_rel_def queue_ok_init)
    moreover have "m_control (sys_mutex s) \<in> {1, 2}"
      using that by (auto simp: mutex_sys_init_def sgx_thread_mutex_init_def)
    ultimately show ?thesis
      using that by (auto simp: mutex_sys_inv_def mutex_sys_init_def mutex_ghost_def mutex_kind_of_def)
  qed
qed (fact mutex_sys_inv_step)

lemma mutex_reachableE:
  assumes "reachable (mutex_sys_init e p) (mutex_step e p) s"
  obtains a where "CHECK_PARAMETER e p sizeof_mutex" "mutex_rel (sys_next s) (sys_mutex s) a"
    "mutex_ghost a (blocked s) (pending s) (holds s)"
  using mutex.reachable_inv [OF assms] by (auto simp: mutex_sys_inv_def)

text \<open>The waiting line of a queue, front first.\<close>

definition waiting_line :: "tstore \<Rightarrow> sgx_thread_queue \<Rightarrow> addr list" where
  "waiting_line nx q = the (queue_collect nx (QUEUE_FIRST q) [])"

lemma waiting_line_eq: "queue_ok nx q xs \<Longrightarrow> waiting_line nx q = xs"
  by (simp add: waiting_line_def wq.rep_collect)

lemma spec_step_line:
  assumes "spec_step a a'"
  shows "ms_waiters a' = ms_waiters a \<or> (\<exists>t. t \<notin> set (ms_waiters a) \<and> ms_waiters a' = ms_waiters a @ [t]) \<or>
    (\<exists>t. ms_waiters a = t # ms_waiters a' \<and> ms_owner a = None \<and> ms_owner a' = Some t)"
  and "ms_owner a' = ms_owner a \<or> ms_owner a' = None \<or>
    (\<exists>t. ms_owner a = None \<and> ms_owner a' = Some t \<and> (ms_waiters a = [] \<or> hd (ms_waiters a) = t))"
  using assms
  by (cases "ms_waiters a"; auto simp: spec_step_def spec_lock_def spec_trylock_def spec_unlock_def
    spec_destroy_def spec_acquire_def split: if_splits option.splits)+

section \<open>Properties\<close>

text \<open>
  A run used by the witnesses: thread \<open>0x1000\<close> locks a fresh mutex, thread \<open>0x2000\<close> queues up behind
  it, thread \<open>0x1000\<close> unlocks.
\<close>

definition demo_enclave :: enclave_range where
  "demo_enclave = \<lparr>g_enclave_base = 0x100000, g_enclave_size = 0x100000\<rparr>"

definition demo_mutex :: "u64 \<Rightarrow> addr \<Rightarrow> addr \<Rightarrow> sgx_thread_mutex" where
  "demo_mutex n t w = \<lparr>m_refcount = n, m_control = SGX_THREAD_MUTEX_NONRECURSIVE, m_lock = 0, m_owner = t,
     m_queue = \<lparr>m_first = w, m_last = w\<rparr>\<rparr>"

lemma demo_check: "CHECK_PARAMETER demo_enclave 0x110000 sizeof_mutex"
  by (simp add: CHECK_PARAMETER_def demo_enclave_def sgx_is_within_enclave_def)

lemma demo_rel:
  "mutex_rel (\<lambda>_. 0) (demo_mutex 0 0 0) spec_mutex_init"
  by (simp add: demo_mutex_def mutex_rel_def spec_mutex_init_def mutex_kind_of_def queue_ok_def)

lemma mutex_demo_run:
  defines "R \<equiv> reachable (mutex_sys_init demo_enclave 0x110000) (mutex_step demo_enclave 0x110000)"
    and "queued \<equiv> \<lparr>sys_next = (\<lambda>_. 0), sys_mutex = demo_mutex 1 0x1000 0x2000, blocked = {0x2000},
      pending = {}, holds = (\<lambda>_. 0)(0x1000 := 1)\<rparr>"
    and "freed \<equiv> \<lparr>sys_next = (\<lambda>_. 0), sys_mutex = demo_mutex 0 0 0x2000, blocked = {0x2000},
      pending = {0x2000}, holds = (\<lambda>_. 0)\<rparr>"
  shows "R queued" "mutex_step demo_enclave 0x110000 queued freed" "R freed"
proof -
  define s0 where "s0 = \<lparr>sys_next = (\<lambda>_. 0), sys_mutex = demo_mutex 0 0 0, blocked = {}, pending = {},
    holds = (\<lambda>_. 0)\<rparr>"
  define s1 where "s1 = \<lparr>sys_next = (\<lambda>_. 0), sys_mutex = demo_mutex 1 0x1000 0, blocked = {}, pending = {},
    holds = (\<lambda>_. 0)(0x1000 := 1)\<rparr>"
  have "mutex_sys_init demo_enclave 0x110000 s0"
    using demo_check by (simp add: mutex_sys_init_def s0_def demo_mutex_def QUEUE_INIT_def)
  then have r0: "R s0" unfolding R_def by (rule reach_init)
  have "mutex_lock_turn 0x1000 (sys_next s0) (sys_mutex s0) = Some (Return 0, \<lambda>_. 0, demo_mutex 1 0x1000 0)"
    by (simp add: s0_def demo_mutex_def mutex_lock_turn_def mutex_spin_unlock_def QUEUE_FIRST_def)
  from mutex_step.lock [OF _ _ _ this, of demo_enclave "0x110000"]
  have "mutex_step demo_enclave 0x110000 s0 s1"
    by (simp add: s0_def s1_def after_turn_def demo_mutex_def)
  with r0 have r1: "R s1" unfolding R_def by (rule reach_step)
  have "mutex_lock_turn 0x2000 (sys_next s1) (sys_mutex s1) =
      Some (Wait, \<lambda>_. 0, demo_mutex 1 0x1000 0x2000)"
    by (simp add: s1_def demo_mutex_def mutex_lock_turn_def mutex_spin_unlock_def QUEUE_FIRST_def
        queue_find.simps QUEUE_INSERT_TAIL_def fun_eq_iff)
  from mutex_step.lock [OF _ _ _ this, of demo_enclave "0x110000"]
  have "mutex_step demo_enclave 0x110000 s1 queued"
    by (simp add: s1_def queued_def after_turn_def demo_mutex_def)
  with r1 show r2: "R queued" unfolding R_def by (rule reach_step)
  have "sgx_thread_mutex_unlock demo_enclave 0x110000 0x1000 (sys_mutex queued) =
      Some (0, [0x2000], demo_mutex 0 0 0x2000)"
    using demo_check by (simp add: queued_def demo_mutex_def sgx_thread_mutex_unlock_def
        sgx_thread_mutex_unlock_lazy_def mutex_spin_unlock_def QUEUE_FIRST_def)
  from mutex_step.unlock [OF _ _ this]
  show s3: "mutex_step demo_enclave 0x110000 queued freed"
    by (simp add: queued_def freed_def fun_upd_def if_distrib cong: if_cong)
  from r2 s3 show "R freed" unfolding R_def by (rule reach_step)
qed

text \<open>
  C4. Functional refinement: on a mutex whose spin lock is free and whose waiters form a well-formed
  queue, each operation of \<^verbatim>\<open>sethread_mutex.cpp\<close> returns (never hangs on its own spin lock and leaves
  it free), gives the result of the abstract mutex, wakes the threads the abstract mutex says, and
  its new state again represents the abstract one; a lock turn only touches queue links of this
  mutex's waiters and of the caller.
\<close>
theorem mutex_operations_refine_spec:
  assumes "mutex_rel nx m a" "t \<noteq> NULL" "CHECK_PARAMETER e p sizeof_mutex" "ms_count a < 2 ^ 64 - 1"
  shows "(\<exists>nx' m'. mutex_lock_turn t nx m = Some (fst (spec_lock t a), nx', m') \<and>
            mutex_rel nx' m' (snd (spec_lock t a)) \<and>
            (\<forall>x. x \<notin> insert t (set (ms_waiters a)) \<longrightarrow> nx' x = nx x))
    \<and> (\<exists>m'. sgx_thread_mutex_trylock e p t nx m = Some (fst (spec_trylock t a), m') \<and>
            mutex_rel nx m' (snd (spec_trylock t a)))
    \<and> (\<exists>m'. sgx_thread_mutex_unlock e p t m =
              Some (fst (spec_unlock t a), fst (snd (spec_unlock t a)), m') \<and>
            mutex_rel nx m' (snd (snd (spec_unlock t a))))
    \<and> (\<exists>m'. sgx_thread_mutex_destroy e p m = Some (fst (spec_destroy a), m') \<and>
            mutex_rel nx m' (snd (spec_destroy a)))
    \<and> fst (sgx_thread_mutex_init e p m) = 0
    \<and> mutex_rel nx (snd (sgx_thread_mutex_init e p m)) spec_mutex_init"
proof -
  obtain nx' m' where l: "mutex_lock_turn t nx m = Some (fst (spec_lock t a), nx', m')"
      "mutex_rel nx' m' (snd (spec_lock t a))"
      "\<forall>A. A \<inter> set (ms_waiters a) = {} \<longrightarrow> t \<notin> A \<longrightarrow> (\<forall>x\<in>A. nx' x = nx x)"
    using mutex_lock_turn_refines [OF assms(1,2,4)] by blast
  have "nx' x = nx x" if "x \<notin> insert t (set (ms_waiters a))" for x
    using l(3) [rule_format, of "{x}" x] that by auto
  with l(1,2) sgx_thread_mutex_trylock_refines [OF assms(1,2,4,3)]
    sgx_thread_mutex_unlock_refines [OF assms(1-3)] sgx_thread_mutex_destroy_refines [OF assms(1,3)]
    sgx_thread_mutex_init_refines [OF assms(3), of m nx]
  show ?thesis by blast
qed

theorem mutex_operations_refine_spec_witness:
  "mutex_rel (\<lambda>_. 0) (demo_mutex 0 0 0) spec_mutex_init \<and>
   (\<exists>m'. sgx_thread_mutex_trylock demo_enclave 0x110000 0x1000 (\<lambda>_. 0) (demo_mutex 0 0 0) = Some (0, m'))"
proof -
  have "spec_trylock 0x1000 spec_mutex_init = (0, spec_mutex_init\<lparr>ms_owner := Some 0x1000, ms_count := 1\<rparr>)"
    by (simp add: spec_trylock_def spec_acquire_def spec_mutex_init_def)
  moreover have "ms_count spec_mutex_init < 2 ^ 64 - 1" by (simp add: spec_mutex_init_def)
  ultimately have "\<exists>m'. sgx_thread_mutex_trylock demo_enclave 0x110000 0x1000 (\<lambda>_. 0) (demo_mutex 0 0 0) = Some (0, m')"
    using mutex_operations_refine_spec [OF demo_rel, of "0x1000", OF _ demo_check, THEN conjunct2, THEN conjunct1]
    by auto
  with demo_rel show ?thesis by blast
qed

text \<open>
  C5. Mutual exclusion: however the threads' operations on one mutex interleave, and whatever wake-ups
  the untrusted side invents, two threads never hold it at once; the owner field names the holder,
  the reference count is the holder's number of unreleased acquisitions (at most one if the mutex is
  not recursive), and the object's spin lock is free between operations.
\<close>
theorem mutex_mutual_exclusion:
  assumes "reachable (mutex_sys_init e p) (mutex_step e p) s"
  shows "(0 < holds s t \<longrightarrow> 0 < holds s u \<longrightarrow> t = u)
    \<and> (t \<noteq> NULL \<longrightarrow> (0 < holds s t \<longleftrightarrow> m_owner (sys_mutex s) = t))
    \<and> (m_owner (sys_mutex s) \<noteq> NULL \<longrightarrow>
         holds s (m_owner (sys_mutex s)) = unat (m_refcount (sys_mutex s)))
    \<and> (m_control (sys_mutex s) = SGX_THREAD_MUTEX_NONRECURSIVE \<longrightarrow> holds s t \<le> 1)
    \<and> m_lock (sys_mutex s) = 0"
proof -
  obtain a where "mutex_rel (sys_next s) (sys_mutex s) a" "mutex_ghost a (blocked s) (pending s) (holds s)"
    using assms by (rule mutex_reachableE)
  then show ?thesis
    by (simp add: mutex_rel_def mutex_ghost_def mutex_kind_of_def unat_gt_0)
qed

theorem mutex_mutual_exclusion_witness:
  "\<exists>s. reachable (mutex_sys_init demo_enclave 0x110000) (mutex_step demo_enclave 0x110000) s \<and>
     holds s 0x1000 = 1 \<and> blocked s = {0x2000} \<and> \<not> 0 < holds s 0x2000"
proof -
  note t = mutex_mutual_exclusion [OF mutex_demo_run(1), of "0x1000" "0x2000"]
  show ?thesis by (rule exI, rule conjI, rule mutex_demo_run(1)) (use t in simp)
qed

lemma rel_owner_line:
  assumes "mutex_rel nx m a"
  shows "waiting_line nx (m_queue m) = ms_waiters a"
    and "ms_owner a = None \<longleftrightarrow> m_owner m = NULL"
    and "ms_owner a = Some t \<longleftrightarrow> t \<noteq> NULL \<and> m_owner m = t"
  using assms by (auto simp: mutex_rel_def waiting_line_eq)

text \<open>
  C7. First come, first served: in every step from a reachable state the waiting line stays as it is,
  grows by one new thread at its end, or loses its first thread, which in that step becomes the owner
  of the free mutex; ownership only passes through the free state, and a mutex with waiters is only
  ever taken by the first of them.
\<close>
theorem mutex_fifo_handover:
  assumes "reachable (mutex_sys_init e p) (mutex_step e p) s" "mutex_step e p s s'"
  defines "ws \<equiv> waiting_line (sys_next s) (m_queue (sys_mutex s))"
    and "ws' \<equiv> waiting_line (sys_next s') (m_queue (sys_mutex s'))"
    and "owner \<equiv> m_owner (sys_mutex s)" and "owner' \<equiv> m_owner (sys_mutex s')"
  shows "(ws' = ws \<or> (\<exists>t. t \<notin> set ws \<and> ws' = ws @ [t])
            \<or> (\<exists>t. ws = t # ws' \<and> owner = NULL \<and> owner' = t))
    \<and> (owner' = owner \<or> owner' = NULL \<or> owner = NULL \<and> (ws = [] \<or> hd ws = owner'))"
proof -
  obtain a where c: "CHECK_PARAMETER e p sizeof_mutex" and R: "mutex_rel (sys_next s) (sys_mutex s) a"
    and g: "mutex_ghost a (blocked s) (pending s) (holds s)"
    using assms(1) by (rule mutex_reachableE)
  obtain a' where S: "spec_step a a'" and R': "mutex_rel (sys_next s') (sys_mutex s') a'"
    using mutex_step_simulates [OF c R g assms(2)] by blast
  have o: "ms_owner a = (if owner = NULL then None else Some owner)"
      "ms_owner a' = (if owner' = NULL then None else Some owner')"
    using R R' by (simp_all add: owner_def owner'_def mutex_rel_def)
  have w: "ws = ms_waiters a" "ws' = ms_waiters a'"
    using rel_owner_line(1) [OF R] rel_owner_line(1) [OF R'] by (simp_all add: ws_def ws'_def)
  from spec_step_line [OF S, unfolded o, folded w] show ?thesis by (auto split: if_splits)
qed

theorem mutex_fifo_handover_witness:
  "\<exists>s s'. reachable (mutex_sys_init demo_enclave 0x110000) (mutex_step demo_enclave 0x110000) s \<and>
     mutex_step demo_enclave 0x110000 s s' \<and> m_owner (sys_mutex s') = NULL \<and>
     waiting_line (sys_next s') (m_queue (sys_mutex s')) = waiting_line (sys_next s) (m_queue (sys_mutex s))"
proof -
  note t = mutex_fifo_handover [OF mutex_demo_run(1,2)]
  have q: "queue_ok (\<lambda>_. 0) (m_queue (demo_mutex n h 0x2000)) [0x2000]" for n h
    by (simp add: queue_ok_def demo_mutex_def)
  show ?thesis
    by (rule exI, rule exI, rule conjI, rule mutex_demo_run(1), rule conjI, rule mutex_demo_run(2))
      (use t in \<open>simp add: waiting_line_eq [OF q]\<close>, simp add: demo_mutex_def)
qed

text \<open>
  C6. No lost wake-up: whenever the mutex is free and threads wait, the first waiter has a wake-up on
  its way, and as soon as it resumes its turn takes the mutex (returns 0 with itself as owner), so a
  free mutex never stays idle in front of a waiting line.
\<close>
theorem mutex_no_lost_wakeup:
  assumes "reachable (mutex_sys_init e p) (mutex_step e p) s"
    and "m_owner (sys_mutex s) = NULL" "blocked s \<noteq> {}"
  shows "\<exists>t ws m. waiting_line (sys_next s) (m_queue (sys_mutex s)) = t # ws \<and> set (t # ws) = blocked s
    \<and> t \<in> pending s
    \<and> mutex_lock_turn t (sys_next s) (sys_mutex s) = Some (Return 0, sys_next s, m) \<and> m_owner m = t
    \<and> waiting_line (sys_next s) (m_queue m) = ws"
proof -
  obtain a where R: "mutex_rel (sys_next s) (sys_mutex s) a"
    and g: "mutex_ghost a (blocked s) (pending s) (holds s)"
    using assms(1) by (rule mutex_reachableE)
  from g assms(3) obtain t ws where w: "ms_waiters a = t # ws"
    by (cases "ms_waiters a") (auto simp: mutex_ghost_def)
  have o: "ms_owner a = None" using R assms(2) by (simp add: mutex_rel_def)
  with g w have gh: "ms_count a = 0" "ms_kind a \<noteq> Invalid" "t \<in> pending s" "set (t # ws) = blocked s"
    by (auto simp: mutex_ghost_def)
  have t: "t \<noteq> NULL" using wq.rep_nonnull [OF mutex_rel_queue [OF R]] w by auto
  have sp: "spec_lock t a = (Return 0, a\<lparr>ms_owner := Some t, ms_count := 1, ms_waiters := ws\<rparr>)"
    using o w gh by (simp add: spec_lock_def spec_acquire_def)
  obtain nx m where l: "mutex_lock_turn t (sys_next s) (sys_mutex s) = Some (Return 0, nx, m)"
      "mutex_rel nx m (a\<lparr>ms_owner := Some t, ms_count := 1, ms_waiters := ws\<rparr>)"
    using mutex_lock_turn_refines [OF R t] gh(1) unfolding sp by auto
  moreover have "nx = sys_next s"
    using l(1) mutex_rel_spin [OF R]
    by (auto simp: mutex_lock_turn_def Let_def split: if_splits Option.bind_splits prod.splits)
  moreover have "m_owner m = t" using l(2) by (simp add: mutex_rel_def split: if_splits)
  moreover have "waiting_line nx (m_queue m) = ws" using rel_owner_line(1) [OF l(2)] by simp
  ultimately show ?thesis using gh rel_owner_line(1) [OF R] w by auto
qed

theorem mutex_no_lost_wakeup_witness:
  "\<exists>s t. reachable (mutex_sys_init demo_enclave 0x110000) (mutex_step demo_enclave 0x110000) s \<and>
     m_owner (sys_mutex s) = NULL \<and> blocked s = {0x2000} \<and> t \<in> pending s"
proof -
  note t = mutex_no_lost_wakeup [OF mutex_demo_run(3)]
  show ?thesis
    by (rule exI, rule exI, rule conjI, rule mutex_demo_run(3)) (use t in \<open>auto simp: demo_mutex_def\<close>)
qed

text \<open>
  The blocking call as a whole. \<open>lock_arrival env t nx m k\<close> is the shared state at the start of the
  call's turn number \<open>k\<close>, if it gets that far.
\<close>

primrec lock_arrival ::
  "mutex_env \<Rightarrow> addr \<Rightarrow> tstore \<Rightarrow> sgx_thread_mutex \<Rightarrow> nat \<Rightarrow> (tstore \<times> sgx_thread_mutex) option" where
  "lock_arrival env t nx m 0 = Some (nx, m)"
| "lock_arrival env t nx m (Suc k) =
     (case lock_arrival env t nx m k of
        None \<Rightarrow> None
      | Some (nx, m) \<Rightarrow>
          (case mutex_lock_turn t nx m of
             Some (Wait, nx, m) \<Rightarrow> Some (env k nx m)
           | _ \<Rightarrow> None))"

lemma lock_loop_from:
  "lock_arrival env t nx m k = Some (nx', m') \<Longrightarrow>
   mutex_lock_loop env 0 t nx m = mutex_lock_loop env k t nx' m'"
proof (induction k arbitrary: nx' m')
  case 0
  then show ?case by simp
next
  case (Suc k)
  from Suc.prems obtain nx1 m1 nx2 m2 where k: "lock_arrival env t nx m k = Some (nx1, m1)"
    "mutex_lock_turn t nx1 m1 = Some (Wait, nx2, m2)" "env k nx2 m2 = (nx', m')"
    by (auto split: option.splits turn.splits prod.splits)
  then have "mutex_lock_loop env k t nx1 m1 = mutex_lock_loop env (Suc k) t nx' m'"
    by (subst mutex_lock_loop.simps) simp
  with Suc.IH [OF k(1)] show ?case by simp
qed

lemma lock_loop_result:
  assumes "mutex_lock_loop env k t nx m = Some r"
  shows "\<exists>nx0 m0. mutex_lock_turn t nx0 m0 = Some (Return (fst r), snd r)"
proof (rule mutex_lock_loop.raw_induct
    [where P = "\<lambda>env k t nx m r. \<exists>nx0 m0. mutex_lock_turn t nx0 m0 = Some (Return (fst r), snd r)",
      OF _ assms])
  fix loop env k self nx m r
  assume IH: "\<And>env k t nx m r. loop env k t nx m = Some r \<Longrightarrow>
      \<exists>nx0 m0. mutex_lock_turn t nx0 m0 = Some (Return (fst r), snd r)"
    and r: "Option.bind (mutex_lock_turn self nx m)
      (\<lambda>(r, nx, m). case r of Return rc \<Rightarrow> Some (rc, nx, m)
        | Wait \<Rightarrow> case env k nx m of (nx, m) \<Rightarrow> loop env (Suc k) self nx m) = Some r"
  show "\<exists>nx0 m0. mutex_lock_turn self nx0 m0 = Some (Return (fst r), snd r)"
    using r by (auto split: Option.bind_splits turn.splits prod.splits dest: IH) blast
qed

lemma turn_returns:
  assumes "mutex_lock_turn t nx m = Some (Return rc, nx', m')"
  shows "rc = 0 \<and> m_owner m' = t \<or> rc = EINVAL"
  using assms by (auto simp: mutex_lock_turn_def mutex_spin_unlock_def Let_def
      split: if_splits Option.bind_splits prod.splits)

text \<open>
  C8. The blocking \<^verbatim>\<open>sgx_thread_mutex_lock\<close> as a whole, whatever the other threads do while it waits:
  it never returns without a result, that is, if it returns then either with 0 and the caller as
  owner or with \<^verbatim>\<open>EINVAL\<close>; and it does return, with 0, the mutex owned by the caller, its spin lock
  free and the caller gone from the line, once it comes back to a well-formed mutex that is free and
  has the caller (or nobody) first in line.
\<close>
theorem mutex_lock_blocks_until_owner:
  assumes "CHECK_PARAMETER e p sizeof_mutex" "t \<noteq> NULL"
  shows "(\<forall>rc nx' m'. sgx_thread_mutex_lock e p env t nx m = Some (rc, nx', m') \<longrightarrow>
            rc = 0 \<and> m_owner m' = t \<or> rc = EINVAL)
    \<and> (\<forall>k nxk mk a. lock_arrival env t nx m k = Some (nxk, mk) \<longrightarrow> mutex_rel nxk mk a \<longrightarrow>
          ms_kind a \<noteq> Invalid \<longrightarrow> ms_owner a = None \<longrightarrow> ms_count a = 0 \<longrightarrow>
          ms_waiters a = [] \<or> hd (ms_waiters a) = t \<longrightarrow>
          (\<exists>nx' m'. sgx_thread_mutex_lock e p env t nx m = Some (0, nx', m') \<and> m_owner m' = t \<and>
             m_refcount m' = 1 \<and> m_lock m' = 0 \<and> waiting_line nx' (m_queue m') = tl (ms_waiters a)))"
proof (intro conjI allI impI)
  fix rc nx' m'
  assume "sgx_thread_mutex_lock e p env t nx m = Some (rc, nx', m')"
  then have "mutex_lock_loop env 0 t nx m = Some (rc, nx', m')"
    using assms by (simp add: sgx_thread_mutex_lock_def)
  then show "rc = 0 \<and> m_owner m' = t \<or> rc = EINVAL"
    using lock_loop_result [of env 0 t nx m "(rc, nx', m')"] turn_returns [of t _ _ rc nx' m'] by auto
next
  fix k nxk mk a
  assume k: "lock_arrival env t nx m k = Some (nxk, mk)" and R: "mutex_rel nxk mk a"
    and a: "ms_kind a \<noteq> Invalid" "ms_owner a = None" "ms_count a = 0" "ms_waiters a = [] \<or> hd (ms_waiters a) = t"
  have sp: "spec_lock t a = (Return 0, a\<lparr>ms_owner := Some t, ms_count := 1, ms_waiters := tl (ms_waiters a)\<rparr>)"
    using a by (simp add: spec_lock_def spec_acquire_def)
  obtain nx' m' where l: "mutex_lock_turn t nxk mk = Some (Return 0, nx', m')"
      "mutex_rel nx' m' (a\<lparr>ms_owner := Some t, ms_count := 1, ms_waiters := tl (ms_waiters a)\<rparr>)"
    using mutex_lock_turn_refines [OF R assms(2)] a(3) unfolding sp by auto
  have "mutex_lock_loop env 0 t nx m = Some (0, nx', m')"
    unfolding lock_loop_from [OF k] by (subst mutex_lock_loop.simps) (simp add: l(1))
  moreover have "m_owner m' = t" "m_lock m' = 0" "unat (m_refcount m') = 1"
    using l(2) by (simp_all add: mutex_rel_def split: if_splits)
  moreover have "m_refcount m' = 1"
    using \<open>unat (m_refcount m') = 1\<close> by (metis unat_1 word_unat_eq_iff)
  moreover have "waiting_line nx' (m_queue m') = tl (ms_waiters a)"
    using rel_owner_line(1) [OF l(2)] by simp
  ultimately show "\<exists>nx' m'. sgx_thread_mutex_lock e p env t nx m = Some (0, nx', m') \<and> m_owner m' = t \<and>
      m_refcount m' = 1 \<and> m_lock m' = 0 \<and> waiting_line nx' (m_queue m') = tl (ms_waiters a)"
    using assms(1) by (simp add: sgx_thread_mutex_lock_def)
qed

theorem mutex_lock_blocks_until_owner_witness:
  "\<exists>nx' m'. sgx_thread_mutex_lock demo_enclave 0x110000 (\<lambda>_ nx _. (nx, demo_mutex 0 0 0x2000)) 0x2000 (\<lambda>_. 0)
     (demo_mutex 1 0x1000 0) = Some (0, nx', m') \<and> m_owner m' = 0x2000"
proof -
  have "mutex_lock_turn 0x2000 (\<lambda>_. 0) (demo_mutex 1 0x1000 0) =
      Some (Wait, \<lambda>_. 0, demo_mutex 1 0x1000 0x2000)"
    by (simp add: demo_mutex_def mutex_lock_turn_def mutex_spin_unlock_def QUEUE_FIRST_def
        queue_find.simps QUEUE_INSERT_TAIL_def fun_eq_iff)
  then have "lock_arrival (\<lambda>_ nx _. (nx, demo_mutex 0 0 0x2000)) 0x2000 (\<lambda>_. 0) (demo_mutex 1 0x1000 0) 1 =
      Some (\<lambda>_. 0, demo_mutex 0 0 0x2000)" by simp
  moreover have "mutex_rel (\<lambda>_. 0) (demo_mutex 0 0 0x2000) (spec_mutex_init\<lparr>ms_waiters := [0x2000]\<rparr>)"
    by (simp add: demo_mutex_def mutex_rel_def spec_mutex_init_def mutex_kind_of_def queue_ok_def)
  ultimately show ?thesis
    using mutex_lock_blocks_until_owner [OF demo_check, of "0x2000", THEN conjunct2, rule_format]
    by (fastforce simp: spec_mutex_init_def)
qed

end
