(* ===== verification/Thread_Cond.thy ===== *)
theory Thread_Cond
  imports Thread_Mutex
begin

text \<open>
  Trusted condition variables (\<^verbatim>\<open>sdk/tlibthread/sethread_cond.cpp\<close>). \<^verbatim>\<open>sgx_thread_cond_wait\<close> is modelled in
  its three phases: the entry section, which queues the caller and releases the mutex while the
  condition's spin lock is held; the re-check sections after each untrusted wait; and the final
  \<^verbatim>\<open>sgx_thread_mutex_lock\<close>. The transition system interleaves waiters, signallers and broadcasters on
  one condition variable.
\<close>

section \<open>The code\<close>

record sgx_thread_cond =
  c_lock :: u32
  c_queue :: sgx_thread_queue

abbreviation (input) sizeof_cond :: u64 where "sizeof_cond \<equiv> 24"

definition cond_spin_unlock :: "sgx_thread_cond \<Rightarrow> sgx_thread_cond" where
  "cond_spin_unlock c = c\<lparr>c_lock := sgx_spin_unlock (c_lock c)\<rparr>"

definition sgx_thread_cond_init ::
  "enclave_range \<Rightarrow> addr \<Rightarrow> sgx_thread_cond \<Rightarrow> int \<times> sgx_thread_cond" where
  "sgx_thread_cond_init e p c =
     (if \<not> CHECK_PARAMETER e p sizeof_cond then (EINVAL, c)
      else (0, c\<lparr>c_lock := 0, c_queue := QUEUE_INIT\<rparr>))"

definition sgx_thread_cond_destroy ::
  "enclave_range \<Rightarrow> addr \<Rightarrow> sgx_thread_cond \<Rightarrow> (int \<times> sgx_thread_cond) option" where
  "sgx_thread_cond_destroy e p c =
     (if \<not> CHECK_PARAMETER e p sizeof_cond then Some (EINVAL, c)
      else do {
        l \<leftarrow> sgx_spin_lock (c_lock c);
        let c = c\<lparr>c_lock := l\<rparr>;
        if QUEUE_FIRST (c_queue c) \<noteq> NULL then Some (EBUSY, cond_spin_unlock c)
        else Some (0, cond_spin_unlock c)
      })"

text \<open>
  Entry: the caller is appended to the queue and the mutex released in one critical section of the
  condition. The trace lists the shared state (link fields, condition, mutex) as other threads can see it
  after each statement: taking the condition's spin lock, queueing, releasing the mutex, and giving the
  spin lock back. On success the caller goes out to wait; the listed thread, if any, is woken by the same
  OCALL.
\<close>

type_synonym cond_point = "tstore \<times> sgx_thread_cond \<times> sgx_thread_mutex"

definition cond_wait_enter_trace ::
  "enclave_range \<Rightarrow> addr \<Rightarrow> addr \<Rightarrow> tstore \<Rightarrow> sgx_thread_cond \<Rightarrow> sgx_thread_mutex \<Rightarrow>
   (turn \<times> addr list \<times> cond_point list) option" where
  "cond_wait_enter_trace e pm self nx c m = do {
     l \<leftarrow> sgx_spin_lock (c_lock c);
     let c1 = c\<lparr>c_lock := l\<rparr>;
     let (nx2, q) = QUEUE_INSERT_TAIL nx (c_queue c1) self;
     let c2 = c1\<lparr>c_queue := q\<rparr>;
     (ret, w, m3) \<leftarrow> sgx_thread_mutex_unlock_lazy e pm self m;
     let waiter = (case w of None \<Rightarrow> NULL | Some w \<Rightarrow> w);
     let c4 = cond_spin_unlock c2;
     let points = [(nx, c1, m), (nx2, c2, m), (nx2, c2, m3), (nx2, c4, m3)];
     if ret \<noteq> 0 then Some (Return ret, [], points)
     else Some (Wait, if waiter = NULL then [] else [waiter], points)
   }"

definition cond_wait_enter ::
  "enclave_range \<Rightarrow> addr \<Rightarrow> addr \<Rightarrow> tstore \<Rightarrow> sgx_thread_cond \<Rightarrow> sgx_thread_mutex \<Rightarrow>
   (turn \<times> addr list \<times> tstore \<times> sgx_thread_cond \<times> sgx_thread_mutex) option" where
  "cond_wait_enter e pm self nx c m =
     map_option (\<lambda>(r, events, points). (r, events, last points)) (cond_wait_enter_trace e pm self nx c m)"

text \<open>After a wait: go on waiting while still in the queue, otherwise leave (\<open>Return 0\<close>).\<close>

definition cond_wait_turn ::
  "addr \<Rightarrow> tstore \<Rightarrow> sgx_thread_cond \<Rightarrow> (turn \<times> sgx_thread_cond) option" where
  "cond_wait_turn self nx c = do {
     l \<leftarrow> sgx_spin_lock (c_lock c);
     let c = c\<lparr>c_lock := l\<rparr>;
     tmp \<leftarrow> queue_find nx self (QUEUE_FIRST (c_queue c));
     if tmp = NULL then Some (Return 0, cond_spin_unlock c)
     else Some (Wait, cond_spin_unlock c)
   }"

type_synonym cond_env =
  "nat \<Rightarrow> tstore \<Rightarrow> sgx_thread_cond \<Rightarrow> sgx_thread_mutex \<Rightarrow> tstore \<times> sgx_thread_cond \<times> sgx_thread_mutex"

text \<open>\<open>env k\<close>: what the other threads do to the shared state during the \<open>k\<close>-th untrusted wait.\<close>

partial_function (option) cond_wait_loop ::
  "cond_env \<Rightarrow> nat \<Rightarrow> addr \<Rightarrow> tstore \<Rightarrow> sgx_thread_cond \<Rightarrow> sgx_thread_mutex \<Rightarrow>
   (tstore \<times> sgx_thread_cond \<times> sgx_thread_mutex) option" where
  "cond_wait_loop env k self nx c m =
     (case env k nx c m of (nx, c, m) \<Rightarrow> do {
        (r, c) \<leftarrow> cond_wait_turn self nx c;
        (case r of
           Return _ \<Rightarrow> Some (nx, c, m)
         | Wait \<Rightarrow> cond_wait_loop env (Suc k) self nx c m)
      })"

definition sgx_thread_cond_wait ::
  "enclave_range \<Rightarrow> addr \<Rightarrow> addr \<Rightarrow> cond_env \<Rightarrow> mutex_env \<Rightarrow> addr \<Rightarrow>
   tstore \<Rightarrow> sgx_thread_cond \<Rightarrow> sgx_thread_mutex \<Rightarrow>
   (int \<times> addr list \<times> tstore \<times> sgx_thread_cond \<times> sgx_thread_mutex) option" where
  "sgx_thread_cond_wait e p pm env menv self nx c m =
     (if \<not> CHECK_PARAMETER e p sizeof_cond \<or> \<not> CHECK_PARAMETER e pm sizeof_mutex
      then Some (EINVAL, [], nx, c, m)
      else do {
        (r, events, nx, c, m) \<leftarrow> cond_wait_enter e pm self nx c m;
        (case r of
           Return ret \<Rightarrow> Some (ret, events, nx, c, m)
         | Wait \<Rightarrow> do {
             (nx, c, m) \<leftarrow> cond_wait_loop env 0 self nx c m;
             (_, nx, m) \<leftarrow> sgx_thread_mutex_lock e pm menv self nx m;
             Some (0, events, nx, c, m)
           })
      })"

definition sgx_thread_cond_signal ::
  "enclave_range \<Rightarrow> addr \<Rightarrow> tstore \<Rightarrow> sgx_thread_cond \<Rightarrow> (int \<times> addr list \<times> sgx_thread_cond) option" where
  "sgx_thread_cond_signal e p nx c =
     (if \<not> CHECK_PARAMETER e p sizeof_cond then Some (EINVAL, [], c)
      else do {
        l \<leftarrow> sgx_spin_lock (c_lock c);
        let c = c\<lparr>c_lock := l\<rparr>;
        let waiter = QUEUE_FIRST (c_queue c);
        if waiter = NULL then Some (0, [], cond_spin_unlock c)
        else Some (0, [waiter], cond_spin_unlock (c\<lparr>c_queue := QUEUE_REMOVE_HEAD nx (c_queue c)\<rparr>))
      })"

partial_function (option) cond_drain ::
  "tstore \<Rightarrow> sgx_thread_queue \<Rightarrow> addr list \<Rightarrow> (addr list \<times> sgx_thread_queue) option" where
  "cond_drain nx q waiters =
     (let waiter = QUEUE_FIRST q in
      if waiter = NULL then Some (waiters, q)
      else cond_drain nx (QUEUE_REMOVE_HEAD nx q) (waiters @ [waiter]))"

text \<open>
  \<open>malloc n\<close> tells whether the allocation of \<open>n\<close> bytes succeeds. The result also carries the number of
  array slots that were allocated, so that the writes can be compared with it.
\<close>

definition sgx_thread_cond_broadcast ::
  "(u64 \<Rightarrow> bool) \<Rightarrow> enclave_range \<Rightarrow> addr \<Rightarrow> tstore \<Rightarrow> sgx_thread_cond \<Rightarrow>
   (int \<times> u64 \<times> addr list \<times> sgx_thread_cond) option" where
  "sgx_thread_cond_broadcast malloc e p nx c =
     (if \<not> CHECK_PARAMETER e p sizeof_cond then Some (EINVAL, 0, [], c)
      else do {
        l \<leftarrow> sgx_spin_lock (c_lock c);
        let c = c\<lparr>c_lock := l\<rparr>;
        n_waiter \<leftarrow> QUEUE_COUNT_ALL nx (c_queue c);
        if n_waiter = 0 then Some (0, 0, [], cond_spin_unlock c)
        else if \<not> malloc (n_waiter * 8) then Some (ENOMEM, 0, [], cond_spin_unlock c)
        else do {
          (waiters, q) \<leftarrow> cond_drain nx (c_queue c) [];
          Some (0, n_waiter, waiters, cond_spin_unlock (c\<lparr>c_queue := q\<rparr>))
        }
      })"

section \<open>Sections on a well-formed condition variable\<close>

definition cond_rel :: "tstore \<Rightarrow> sgx_thread_cond \<Rightarrow> addr list \<Rightarrow> bool" where
  "cond_rel nx c ws \<longleftrightarrow> c_lock c = 0 \<and> queue_ok nx (c_queue c) ws"

lemma cond_relD:
  assumes "cond_rel nx c ws"
  shows "sgx_spin_lock (c_lock c) = Some 1" "queue_ok nx (c_queue c) ws" "c\<lparr>c_lock := 0\<rparr> = c"
  using assms by (simp_all add: cond_rel_def)

lemma cond_rel_frame: "cond_rel nx c ws \<Longrightarrow> \<forall>x\<in>set ws. nx' x = nx x \<Longrightarrow> cond_rel nx' c ws"
  unfolding cond_rel_def using wq.rep_frame by blast

lemma cond_init_rel:
  "CHECK_PARAMETER e p sizeof_cond \<Longrightarrow> cond_rel nx (snd (sgx_thread_cond_init e p c)) []"
  by (simp add: sgx_thread_cond_init_def cond_rel_def queue_ok_init)

lemma cond_wait_enter_trace_rel:
  assumes R: "cond_rel nx c ws" and t: "t \<noteq> NULL" "t \<notin> set ws"
    and u: "sgx_thread_mutex_unlock_lazy e pm t m = Some (ret, w, m')"
  shows "\<exists>nx' c'. cond_wait_enter_trace e pm t nx c m =
      Some (if ret \<noteq> 0 then Return ret else Wait,
            if ret \<noteq> 0 \<or> w = None \<or> w = Some NULL then [] else [the w],
            [(nx, c\<lparr>c_lock := 1\<rparr>, m), (nx', c'\<lparr>c_lock := 1\<rparr>, m), (nx', c'\<lparr>c_lock := 1\<rparr>, m'), (nx', c', m')]) \<and>
    cond_rel nx' c' (ws @ [t]) \<and> (\<forall>x. x \<notin> insert t (set ws) \<longrightarrow> nx' x = nx x)"
proof -
  obtain nx' q where i: "QUEUE_INSERT_TAIL nx (c_queue c) t = (nx', q)" by fastforce
  have q: "queue_ok nx' q (ws @ [t])"
    using wq.rep_insert [OF cond_relD(2) [OF R] t] i by simp
  have f: "nx' x = nx x" if "x \<notin> insert t (set ws)" for x
    using wq.insert_agree [OF cond_relD(2) [OF R], of "{x}" t] that i by auto
  let ?c = "c\<lparr>c_queue := q, c_lock := 0\<rparr>"
  have "cond_wait_enter_trace e pm t nx c m =
      Some (if ret \<noteq> 0 then Return ret else Wait,
            if ret \<noteq> 0 \<or> w = None \<or> w = Some NULL then [] else [the w],
            [(nx, c\<lparr>c_lock := 1\<rparr>, m), (nx', ?c\<lparr>c_lock := 1\<rparr>, m), (nx', ?c\<lparr>c_lock := 1\<rparr>, m'), (nx', ?c, m')])"
    using cond_relD(1) [OF R] i u
    by (cases w) (auto simp: cond_wait_enter_trace_def cond_spin_unlock_def Let_def)
  with q f show ?thesis by (intro exI [of _ nx'] exI [of _ ?c]) (simp add: cond_rel_def)
qed

lemma cond_wait_enter_rel:
  assumes "cond_rel nx c ws" "t \<noteq> NULL" "t \<notin> set ws"
    and "sgx_thread_mutex_unlock_lazy e pm t m = Some (ret, w, m')"
  shows "\<exists>nx' c'. cond_wait_enter e pm t nx c m =
      Some (if ret \<noteq> 0 then Return ret else Wait,
            if ret \<noteq> 0 \<or> w = None \<or> w = Some NULL then [] else [the w], nx', c', m') \<and>
    cond_rel nx' c' (ws @ [t]) \<and> (\<forall>x. x \<notin> insert t (set ws) \<longrightarrow> nx' x = nx x)"
  using cond_wait_enter_trace_rel [OF assms] by (auto simp: cond_wait_enter_def)

text \<open>While the condition's spin lock is held, no operation of another thread on the condition gets through.\<close>

definition cond_shut :: "enclave_range \<Rightarrow> addr \<Rightarrow> tstore \<Rightarrow> sgx_thread_cond \<Rightarrow> bool" where
  "cond_shut e p nx c \<longleftrightarrow>
     sgx_thread_cond_signal e p nx c = None \<and> (\<forall>malloc. sgx_thread_cond_broadcast malloc e p nx c = None) \<and>
     sgx_thread_cond_destroy e p c = None \<and>
     (\<forall>u. cond_wait_turn u nx c = None) \<and> (\<forall>pm u m. cond_wait_enter e pm u nx c m = None)"

lemma cond_locked_shut: "CHECK_PARAMETER e p sizeof_cond \<Longrightarrow> cond_shut e p nx (c\<lparr>c_lock := 1\<rparr>)"
  by (simp add: cond_shut_def sgx_thread_cond_signal_def sgx_thread_cond_broadcast_def
      sgx_thread_cond_destroy_def cond_wait_turn_def cond_wait_enter_def cond_wait_enter_trace_def sgx_spin_lock_busy)

lemma cond_wait_turn_rel:
  "cond_rel nx c ws \<Longrightarrow> cond_wait_turn t nx c = Some (if t \<in> set ws then Wait else Return 0, c)"
  using wq.rep_find [OF cond_relD(2), of nx c ws t] wq.rep_nonnull [OF cond_relD(2), of nx c ws]
  by (auto simp: cond_wait_turn_def cond_rel_def cond_spin_unlock_def Let_def)

lemma cond_signal_rel:
  assumes R: "cond_rel nx c ws" and e: "CHECK_PARAMETER e p sizeof_cond"
  shows "\<exists>c'. sgx_thread_cond_signal e p nx c = Some (0, take 1 ws, c') \<and> cond_rel nx c' (drop 1 ws)"
proof (cases ws)
  case Nil
  then show ?thesis
    using cond_relD [OF R] e wq.rep_first [OF cond_relD(2) [OF R]] R
    by (simp add: sgx_thread_cond_signal_def cond_spin_unlock_def)
next
  case (Cons w ws')
  then show ?thesis
    using cond_relD [OF R] e wq.rep_first [OF cond_relD(2) [OF R]]
      wq.rep_nonnull [OF cond_relD(2) [OF R]] wq.rep_remove_head [of nx "c_queue c" w ws']
    by (simp add: sgx_thread_cond_signal_def cond_spin_unlock_def cond_rel_def)
qed

lemma cond_drain_ok: "queue_ok nx q ws \<Longrightarrow> \<exists>q'. cond_drain nx q acc = Some (acc @ ws, q') \<and> queue_ok nx q' []"
proof (induction ws arbitrary: q acc)
  case Nil
  then show ?case using wq.rep_first [OF Nil] by (subst cond_drain.simps) simp
next
  case (Cons w ws)
  then show ?case
    using wq.rep_first [OF Cons.prems] wq.rep_nonnull [OF Cons.prems]
      Cons.IH [OF wq.rep_remove_head [OF Cons.prems], of "acc @ [w]"]
    by (subst cond_drain.simps) simp
qed

lemma cond_broadcast_rel:
  assumes R: "cond_rel nx c ws" and e: "CHECK_PARAMETER e p sizeof_cond"
  shows "\<exists>c'. sgx_thread_cond_broadcast malloc e p nx c =
      (if ws = [] then Some (0, 0, [], c')
       else if \<not> malloc (word_of_nat (length ws) * 8) then Some (ENOMEM, 0, [], c')
       else Some (0, word_of_nat (length ws), ws, c')) \<and>
    cond_rel nx c' (if ws \<noteq> [] \<and> \<not> malloc (word_of_nat (length ws) * 8) then ws else [])"
proof -
  have n: "length ws < 2 ^ 64"
    using distinct_addr_length wq.rep_distinct [OF cond_relD(2) [OF R]] wq.rep_nonnull [OF cond_relD(2) [OF R]]
    by blast
  have z: "(word_of_nat (length ws) :: u64) = 0 \<longleftrightarrow> ws = []"
    using n by (simp add: unat_eq_0 [symmetric] unat_of_nat take_bit_nat_eq_self del: unat_eq_0)
  obtain q' where "cond_drain nx (c_queue c) [] = Some (ws, q')" "queue_ok nx q' []"
    using cond_drain_ok [OF cond_relD(2) [OF R], of "[]"] by auto
  with z cond_relD [OF R] e queue_count_ok [OF cond_relD(2) [OF R]] R show ?thesis
    by (cases "ws = []") (simp_all add: sgx_thread_cond_broadcast_def cond_spin_unlock_def cond_rel_def)
qed

section \<open>Waiters, signallers and broadcasters on one condition variable\<close>

text \<open>
  Ghosts: \<open>cwaiting\<close>, the threads between the entry section of \<^verbatim>\<open>sgx_thread_cond_wait\<close> and leaving its
  loop; \<open>woken\<close>, those of them a signal or broadcast has taken out of the queue; \<open>cstale\<close>, the threads
  whose call failed because the mutex could not be released, which returned but stay queued; \<open>cpending\<close>,
  the threads an event was set for and that have not resumed since. A thread has one link field: one
  that is still queued here does not enter this or another queue (doing so overwrites the link and
  breaks the queue); this is the condition on \<open>enter\<close>, \<open>enter_fail\<close> and \<open>other\<close>.
\<close>

record cond_sys =
  cs_next :: tstore
  cs_cond :: sgx_thread_cond
  cwaiting :: "addr set"
  woken :: "addr set"
  cstale :: "addr set"
  cpending :: "addr set"

inductive cond_step :: "enclave_range \<Rightarrow> addr \<Rightarrow> cond_sys \<Rightarrow> cond_sys \<Rightarrow> bool" for e p where
  enter: "t \<noteq> NULL \<Longrightarrow> t \<notin> cwaiting s \<union> cstale s \<Longrightarrow>
    cond_wait_enter e pm t (cs_next s) (cs_cond s) m = Some (Wait, events, nx, c, m') \<Longrightarrow>
    cond_step e p s (s\<lparr>cs_next := nx, cs_cond := c, cwaiting := insert t (cwaiting s)\<rparr>)"
| enter_fail: "t \<noteq> NULL \<Longrightarrow> t \<notin> cwaiting s \<union> cstale s \<Longrightarrow>
    cond_wait_enter e pm t (cs_next s) (cs_cond s) m = Some (Return rc, events, nx, c, m') \<Longrightarrow>
    cond_step e p s (s\<lparr>cs_next := nx, cs_cond := c, cstale := insert t (cstale s)\<rparr>)"
| resume_wait: "t \<in> cwaiting s \<Longrightarrow> cond_wait_turn t (cs_next s) (cs_cond s) = Some (Wait, c) \<Longrightarrow>
    cond_step e p s (s\<lparr>cs_cond := c, cpending := cpending s - {t}\<rparr>)"
| resume_leave: "t \<in> cwaiting s \<Longrightarrow> cond_wait_turn t (cs_next s) (cs_cond s) = Some (Return rc, c) \<Longrightarrow>
    cond_step e p s (s\<lparr>cs_cond := c, cpending := cpending s - {t}, cwaiting := cwaiting s - {t},
      woken := woken s - {t}\<rparr>)"
| signal: "sgx_thread_cond_signal e p (cs_next s) (cs_cond s) = Some (rc, events, c) \<Longrightarrow>
    cond_step e p s (s\<lparr>cs_cond := c, cpending := cpending s \<union> set events,
      woken := woken s \<union> (set events \<inter> cwaiting s), cstale := cstale s - set events\<rparr>)"
| broadcast: "sgx_thread_cond_broadcast malloc e p (cs_next s) (cs_cond s) = Some (rc, n, events, c) \<Longrightarrow>
    cond_step e p s (s\<lparr>cs_cond := c, cpending := cpending s \<union> set events,
      woken := woken s \<union> (set events \<inter> cwaiting s), cstale := cstale s - set events\<rparr>)"
| destroy: "sgx_thread_cond_destroy e p (cs_cond s) = Some (rc, c) \<Longrightarrow>
    cond_step e p s (s\<lparr>cs_cond := c\<rparr>)"
| other: "\<forall>t\<in>cwaiting s \<union> cstale s. nx t = cs_next s t \<Longrightarrow> cond_step e p s (s\<lparr>cs_next := nx\<rparr>)"

definition cond_sys_init :: "enclave_range \<Rightarrow> addr \<Rightarrow> cond_sys \<Rightarrow> bool" where
  "cond_sys_init e p s \<longleftrightarrow>
     CHECK_PARAMETER e p sizeof_cond \<and> cwaiting s = {} \<and> woken s = {} \<and> cstale s = {} \<and>
     (\<exists>c. cs_cond s = snd (sgx_thread_cond_init e p c))"

definition cond_ghost :: "addr list \<Rightarrow> addr set \<Rightarrow> addr set \<Rightarrow> addr set \<Rightarrow> addr set \<Rightarrow> bool" where
  "cond_ghost ws W K S P \<longleftrightarrow> set ws = (W - K) \<union> S \<and> K \<subseteq> W \<and> W \<inter> S = {} \<and> K \<subseteq> P"

definition cond_sys_inv :: "enclave_range \<Rightarrow> addr \<Rightarrow> cond_sys \<Rightarrow> bool" where
  "cond_sys_inv e p s \<longleftrightarrow> CHECK_PARAMETER e p sizeof_cond \<and>
     (\<exists>ws. cond_rel (cs_next s) (cs_cond s) ws \<and>
       cond_ghost ws (cwaiting s) (woken s) (cstale s) (cpending s))"

lemma cond_ghost_pop:
  assumes d: "distinct ws" and g: "cond_ghost ws W K S P"
  shows "cond_ghost (drop n ws) W (K \<union> (set (take n ws) \<inter> W)) (S - set (take n ws)) (P \<union> set (take n ws))"
proof -
  have "set ws = set (take n ws) \<union> set (drop n ws)"
    by (metis append_take_drop_id set_append)
  moreover have "set (take n ws) \<inter> set (drop n ws) = {}"
    using d by (simp add: set_take_disj_set_drop_if_distinct)
  ultimately have "set (drop n ws) = set ws - set (take n ws)" by blast
  then show ?thesis using g unfolding cond_ghost_def by blast
qed

lemma cond_enter_rel:
  assumes R: "cond_rel nx c ws" and t: "t \<noteq> NULL" "t \<notin> set ws"
    and w: "cond_wait_enter e pm t nx c m = Some (r, events, nx', c', m')"
  shows "cond_rel nx' c' (ws @ [t])"
proof -
  obtain l where "sgx_spin_lock (c_lock c) = Some l" using cond_relD(1) [OF R] by blast
  with w obtain ret v where "sgx_thread_mutex_unlock_lazy e pm t m = Some (ret, v, m')"
    by (auto simp: cond_wait_enter_def cond_wait_enter_trace_def Let_def split: Option.bind_splits prod.splits if_splits)
  from cond_wait_enter_rel [OF R t this] w show ?thesis by auto
qed

lemma cond_sys_inv_step:
  assumes "cond_sys_inv e p s" "cond_step e p s s'"
  shows "cond_sys_inv e p s'"
proof -
  from assms(1) obtain ws where c: "CHECK_PARAMETER e p sizeof_cond" and R: "cond_rel (cs_next s) (cs_cond s) ws"
    and g: "cond_ghost ws (cwaiting s) (woken s) (cstale s) (cpending s)"
    by (auto simp: cond_sys_inv_def)
  have d: "distinct ws" using cond_relD(2) [OF R] by (rule wq.rep_distinct)
  from assms(2) have "\<exists>ws. cond_rel (cs_next s') (cs_cond s') ws \<and>
      cond_ghost ws (cwaiting s') (woken s') (cstale s') (cpending s')"
  proof cases
    case (enter t pm m events nx c m')
    have "t \<notin> set ws" using enter(3) g by (auto simp: cond_ghost_def)
    from cond_enter_rel [OF R enter(2) this enter(4)] show ?thesis
      using enter g by (intro exI [of _ "ws @ [t]"]) (auto simp: cond_ghost_def)
  next
    case (enter_fail t pm m rc events nx c m')
    have "t \<notin> set ws" using enter_fail(3) g by (auto simp: cond_ghost_def)
    from cond_enter_rel [OF R enter_fail(2) this enter_fail(4)] show ?thesis
      using enter_fail g by (intro exI [of _ "ws @ [t]"]) (auto simp: cond_ghost_def)
  next
    case (resume_wait t c)
    then have "t \<in> set ws" "c = cs_cond s" using cond_wait_turn_rel [OF R, of t] by (auto split: if_splits)
    then show ?thesis using resume_wait R g
      by (intro exI [of _ ws]) (auto simp: cond_ghost_def)
  next
    case (resume_leave t rc c)
    then have "t \<notin> set ws" "c = cs_cond s" using cond_wait_turn_rel [OF R, of t] by (auto split: if_splits)
    then show ?thesis using resume_leave R g
      by (intro exI [of _ ws]) (auto simp: cond_ghost_def)
  next
    case (signal rc events c)
    then have "events = take 1 ws" "cond_rel (cs_next s) c (drop 1 ws)"
      using cond_signal_rel [OF R \<open>CHECK_PARAMETER e p sizeof_cond\<close>] by auto
    then show ?thesis using signal cond_ghost_pop [OF d g, of 1] by auto
  next
    case (broadcast malloc rc n events c)
    then have "(events = ws \<and> cond_rel (cs_next s) c []) \<or> (events = [] \<and> cond_rel (cs_next s) c ws)"
      using cond_broadcast_rel [OF R \<open>CHECK_PARAMETER e p sizeof_cond\<close>, of malloc] by (auto split: if_splits)
    then show ?thesis using broadcast cond_ghost_pop [OF d g, of "length ws"] g by auto
  next
    case (destroy rc c)
    then have "c = cs_cond s"
      using cond_relD [OF R] \<open>CHECK_PARAMETER e p sizeof_cond\<close>
      by (auto simp: sgx_thread_cond_destroy_def cond_spin_unlock_def Let_def split: if_splits)
    then show ?thesis using destroy R g by auto
  next
    case (other nx)
    then have "cond_rel nx (cs_cond s) ws"
      using g by (intro cond_rel_frame [OF R]) (auto simp: cond_ghost_def)
    then show ?thesis using other g by auto
  qed
  with c show ?thesis by (simp add: cond_sys_inv_def)
qed

interpretation cond: invariant_system "cond_sys_init e p" "cond_step e p" "cond_sys_inv e p"
proof unfold_locales
  show "cond_sys_inv e p s" if "cond_sys_init e p s" for s
    using that cond_init_rel [of e p "cs_next s"]
    by (auto simp: cond_sys_inv_def cond_sys_init_def cond_ghost_def)
qed (fact cond_sys_inv_step)

section \<open>Properties\<close>

lemma cond_reachableE:
  assumes "reachable (cond_sys_init e p) (cond_step e p) s"
  obtains ws where "CHECK_PARAMETER e p sizeof_cond" "cond_rel (cs_next s) (cs_cond s) ws"
    "cond_ghost ws (cwaiting s) (woken s) (cstale s) (cpending s)"
  using cond.reachable_inv [OF assms] by (auto simp: cond_sys_inv_def)

definition demo_cond :: "addr \<Rightarrow> sgx_thread_cond" where
  "demo_cond w = \<lparr>c_lock = 0, c_queue = \<lparr>m_first = w, m_last = w\<rparr>\<rparr>"

lemma demo_cond_check: "CHECK_PARAMETER demo_enclave 0x120000 sizeof_cond"
  by (simp add: CHECK_PARAMETER_def demo_enclave_def sgx_is_within_enclave_def)

lemma demo_cond_enter:
  "cond_wait_enter demo_enclave 0x110000 0x1000 (\<lambda>_. 0) (demo_cond 0) (demo_mutex 1 0x1000 0) =
   Some (Wait, [], \<lambda>_. 0, demo_cond 0x1000, demo_mutex 0 0 0)"
  using demo_check
  by (simp add: cond_wait_enter_def cond_wait_enter_trace_def Let_def demo_cond_def demo_mutex_def QUEUE_INSERT_TAIL_def fun_eq_iff
      sgx_thread_mutex_unlock_lazy_def mutex_spin_unlock_def cond_spin_unlock_def QUEUE_FIRST_def)

lemma cond_demo_run:
  "reachable (cond_sys_init demo_enclave 0x120000) (cond_step demo_enclave 0x120000)
     \<lparr>cs_next = (\<lambda>_. 0), cs_cond = demo_cond 0x1000, cwaiting = {0x1000}, woken = {}, cstale = {}, cpending = {}\<rparr>"
proof -
  define s0 where "s0 = \<lparr>cs_next = (\<lambda>_. 0), cs_cond = demo_cond 0, cwaiting = {}, woken = {}, cstale = {}, cpending = {}\<rparr>"
  have "cs_cond s0 = snd (sgx_thread_cond_init demo_enclave 0x120000 (demo_cond 0))"
    using demo_cond_check by (simp add: s0_def sgx_thread_cond_init_def demo_cond_def QUEUE_INIT_def)
  then have "cond_sys_init demo_enclave 0x120000 s0"
    unfolding cond_sys_init_def using demo_cond_check by (auto simp: s0_def)
  then have r: "reachable (cond_sys_init demo_enclave 0x120000) (cond_step demo_enclave 0x120000) s0"
    by (rule reach_init)
  have "cond_wait_enter demo_enclave 0x110000 0x1000 (cs_next s0) (cs_cond s0) (demo_mutex 1 0x1000 0) =
      Some (Wait, [], \<lambda>_. 0, demo_cond 0x1000, demo_mutex 0 0 0)"
    using demo_cond_enter by (simp add: s0_def)
  from reach_step [OF r cond_step.enter [OF _ _ this]] show ?thesis by (simp add: s0_def)
qed

text \<open>
  C11. Waiting on a condition is atomic with releasing the mutex. From a well-formed condition and mutex
  whose waiters are disjoint, for a caller that holds the mutex once: at every point of the entry section
  before its last statement the condition is shut to the other threads (no signal, broadcast, destroy or
  wait on it gets through), at every point the caller owns the mutex or is already in the condition's
  queue, and the mutex is released while the condition is still shut, so that no signal falls between the
  release and the queueing. At the end the caller is last in the queue, the mutex is released, its first
  waiter, if any, is the one thread woken, and both objects are well formed although their queues share
  the threads' link fields, with both spin locks free. The points are those of the caller; the other
  threads' own steps on the mutex are not interleaved here.
\<close>
theorem cond_wait_releases_atomically:
  assumes "cond_rel nx c ws" "mutex_rel nx m a" "CHECK_PARAMETER e pm sizeof_mutex"
    and "CHECK_PARAMETER e p sizeof_cond"
    and "t \<noteq> NULL" "t \<notin> set ws" "t \<notin> set (ms_waiters a)" "set ws \<inter> set (ms_waiters a) = {}"
    and "ms_kind a \<noteq> Invalid" "ms_owner a = Some t" "ms_count a = 1"
  shows "\<exists>points nx' c' m'.
    cond_wait_enter_trace e pm t nx c m = Some (Wait, take 1 (ms_waiters a), points @ [(nx', c', m')]) \<and>
    (\<forall>(nx1, c1, m1) \<in> set points. cond_shut e p nx1 c1) \<and>
    (\<forall>(nx1, c1, m1) \<in> set (points @ [(nx', c', m')]). m_owner m1 = t \<or> t \<in> set (waiting_line nx1 (c_queue c1))) \<and>
    (\<exists>(nx1, c1, m1) \<in> set points. m_owner m1 = NULL) \<and>
    cond_wait_enter e pm t nx c m = Some (Wait, take 1 (ms_waiters a), nx', c', m') \<and>
    cond_rel nx' c' (ws @ [t]) \<and>
    mutex_rel nx' m' (a\<lparr>ms_owner := None, ms_count := 0\<rparr>)"
proof -
  have sp: "spec_unlock t a = (0, take 1 (ms_waiters a), a\<lparr>ms_owner := None, ms_count := 0\<rparr>)"
    using assms by (simp add: spec_unlock_def)
  obtain m' where u: "sgx_thread_mutex_unlock e pm t m = Some (0, take 1 (ms_waiters a), m')"
      "mutex_rel nx m' (a\<lparr>ms_owner := None, ms_count := 0\<rparr>)"
    using sgx_thread_mutex_unlock_refines [OF assms(2,5,3)] unfolding sp by auto
  from u(1) obtain w where l: "sgx_thread_mutex_unlock_lazy e pm t m = Some (0, w, m')"
      "take 1 (ms_waiters a) = (if w = None \<or> w = Some NULL then [] else [the w])"
    by (auto simp: sgx_thread_mutex_unlock_def Let_def split: Option.bind_splits if_splits option.splits)
  obtain nx' c' where n: "cond_wait_enter_trace e pm t nx c m = Some (Wait, take 1 (ms_waiters a),
        [(nx, c\<lparr>c_lock := 1\<rparr>, m), (nx', c'\<lparr>c_lock := 1\<rparr>, m), (nx', c'\<lparr>c_lock := 1\<rparr>, m'), (nx', c', m')])"
      "cond_rel nx' c' (ws @ [t])" "\<forall>x. x \<notin> insert t (set ws) \<longrightarrow> nx' x = nx x"
    using cond_wait_enter_trace_rel [OF assms(1,5,6) l(1)] l(2) by auto
  have m: "mutex_rel nx' m' (a\<lparr>ms_owner := None, ms_count := 0\<rparr>)"
    using n(3) assms(7,8) by (intro mutex_rel_frame [OF u(2)]) auto
  have "t \<in> set (waiting_line nx' (c_queue c'))" "m_owner m = t" "m_owner m' = NULL"
    using waiting_line_eq [OF cond_relD(2) [OF n(2)]] assms(2,10) m by (simp_all add: mutex_rel_def split: if_splits)
  with n m cond_locked_shut [OF assms(4)] show ?thesis
    by (intro exI [of _ "[(nx, c\<lparr>c_lock := 1\<rparr>, m), (nx', c'\<lparr>c_lock := 1\<rparr>, m), (nx', c'\<lparr>c_lock := 1\<rparr>, m')]"]
        exI [of _ nx'] exI [of _ c'] exI [of _ m']) (simp add: cond_wait_enter_def)
qed

theorem cond_wait_releases_atomically_witness:
  "\<exists>nx' c' m'. cond_wait_enter demo_enclave 0x110000 0x1000 (\<lambda>_. 0) (demo_cond 0) (demo_mutex 1 0x1000 0) =
     Some (Wait, [], nx', c', m') \<and> cond_rel nx' c' [0x1000]"
proof -
  have "mutex_rel (\<lambda>_. 0) (demo_mutex 1 0x1000 0) (spec_mutex_init\<lparr>ms_owner := Some 0x1000, ms_count := 1\<rparr>)"
    by (simp add: demo_mutex_def mutex_rel_def spec_mutex_init_def mutex_kind_of_def queue_ok_def)
  moreover have "cond_rel (\<lambda>_. 0) (demo_cond 0) []" by (simp add: cond_rel_def demo_cond_def queue_ok_def)
  ultimately show ?thesis
    using cond_wait_releases_atomically [OF _ _ demo_check demo_cond_check, of "\<lambda>_. 0" "demo_cond 0" "[]" "demo_mutex 1 0x1000 0"
        "spec_mutex_init\<lparr>ms_owner := Some 0x1000, ms_count := 1\<rparr>" "0x1000"]
    by (auto simp: spec_mutex_init_def)
qed

text \<open>
  C12. In every reachable state of a condition variable, calls of \<^verbatim>\<open>sgx_thread_cond_wait\<close> that fail included:
  the queue holds the waiting threads that have not been woken and the threads whose call failed while
  they were queued; a thread in its wait loop leaves it exactly when a signal or broadcast has taken it
  out of the queue (a spurious resumption goes back to waiting), every thread so taken has its event on
  the way, a signal takes and wakes exactly the first of the queue, which is a waiting thread unless a
  failed call left one queued, and a broadcast either fails with \<^verbatim>\<open>ENOMEM\<close> and changes nothing or wakes
  all queued threads in queue order, writing exactly as many array slots as it allocated. A thread that is
  still queued is taken not to enter this or another queue again before it has been taken out.
\<close>
theorem cond_wakeups_exact:
  assumes "reachable (cond_sys_init e p) (cond_step e p) s"
  defines "ws \<equiv> waiting_line (cs_next s) (c_queue (cs_cond s))"
  shows "(\<forall>t \<in> cwaiting s. cond_wait_turn t (cs_next s) (cs_cond s) =
            Some (if t \<in> woken s then Return 0 else Wait, cs_cond s))
    \<and> set ws = (cwaiting s - woken s) \<union> cstale s \<and> woken s \<subseteq> cwaiting s \<inter> cpending s
    \<and> cwaiting s \<inter> cstale s = {}
    \<and> (\<exists>c. sgx_thread_cond_signal e p (cs_next s) (cs_cond s) = Some (0, take 1 ws, c) \<and>
          waiting_line (cs_next s) (c_queue c) = drop 1 ws)
    \<and> (\<exists>rc n events c. sgx_thread_cond_broadcast malloc e p (cs_next s) (cs_cond s) = Some (rc, n, events, c) \<and>
          length events = unat n \<and>
          (rc = 0 \<and> events = ws \<and> waiting_line (cs_next s) (c_queue c) = [] \<or>
           rc = ENOMEM \<and> events = [] \<and> waiting_line (cs_next s) (c_queue c) = ws))"
proof -
  obtain us where c: "CHECK_PARAMETER e p sizeof_cond" and R: "cond_rel (cs_next s) (cs_cond s) us"
    and g: "cond_ghost us (cwaiting s) (woken s) (cstale s) (cpending s)"
    using assms(1) by (rule cond_reachableE)
  have line: "waiting_line (cs_next s) (c_queue c') = vs" if "cond_rel (cs_next s) c' vs" for c' vs
    using cond_relD(2) [OF that] by (rule waiting_line_eq)
  have ws: "ws = us" using line [OF R] by (simp add: ws_def)
  have len: "unat (word_of_nat (length us) :: u64) = length us"
    using distinct_addr_length [OF wq.rep_distinct [OF cond_relD(2) [OF R]] wq.rep_nonnull [OF cond_relD(2) [OF R]]]
    by (simp add: unat_of_nat take_bit_nat_eq_self)
  have "\<forall>t \<in> cwaiting s. t \<in> set us \<longleftrightarrow> t \<notin> woken s" and sets: "set us = (cwaiting s - woken s) \<union> cstale s"
      "woken s \<subseteq> cwaiting s \<inter> cpending s" "cwaiting s \<inter> cstale s = {}"
    using g by (auto simp: cond_ghost_def)
  then have turns: "\<forall>t \<in> cwaiting s. cond_wait_turn t (cs_next s) (cs_cond s) =
      Some (if t \<in> woken s then Return 0 else Wait, cs_cond s)"
    using cond_wait_turn_rel [OF R] by simp
  have sig: "\<exists>c. sgx_thread_cond_signal e p (cs_next s) (cs_cond s) = Some (0, take 1 us, c) \<and>
      waiting_line (cs_next s) (c_queue c) = drop 1 us"
    using cond_signal_rel [OF R c] line by blast
  obtain c' where b: "sgx_thread_cond_broadcast malloc e p (cs_next s) (cs_cond s) =
      (if us = [] then Some (0, 0, [], c')
       else if \<not> malloc (word_of_nat (length us) * 8) then Some (ENOMEM, 0, [], c')
       else Some (0, word_of_nat (length us), us, c'))"
     "cond_rel (cs_next s) c' (if us \<noteq> [] \<and> \<not> malloc (word_of_nat (length us) * 8) then us else [])"
    using cond_broadcast_rel [OF R c, of malloc] by blast
  have "\<exists>rc n events c. sgx_thread_cond_broadcast malloc e p (cs_next s) (cs_cond s) = Some (rc, n, events, c) \<and>
      length events = unat n \<and>
      (rc = 0 \<and> events = us \<and> waiting_line (cs_next s) (c_queue c) = [] \<or>
       rc = ENOMEM \<and> events = [] \<and> waiting_line (cs_next s) (c_queue c) = us)"
    using b(1) line [OF b(2)] len by (cases "us = []"; cases "malloc (word_of_nat (length us) * 8)") auto
  with turns sets sig show ?thesis by (simp only: ws)
qed

theorem cond_wakeups_exact_witness:
  "\<exists>s c. reachable (cond_sys_init demo_enclave 0x120000) (cond_step demo_enclave 0x120000) s \<and>
     cwaiting s = {0x1000} \<and>
     sgx_thread_cond_signal demo_enclave 0x120000 (cs_next s) (cs_cond s) = Some (0, [0x1000], c)"
proof -
  have "queue_ok (\<lambda>_. 0) (c_queue (demo_cond 0x1000)) [0x1000]"
    by (simp add: queue_ok_def demo_cond_def)
  then have "waiting_line (\<lambda>_. 0) (c_queue (demo_cond 0x1000)) = [0x1000]" by (rule waiting_line_eq)
  with cond_wakeups_exact [OF cond_demo_run, THEN conjunct2, THEN conjunct2, THEN conjunct2, THEN conjunct2, THEN conjunct1]
  obtain c where "sgx_thread_cond_signal demo_enclave 0x120000 (\<lambda>_. 0) (demo_cond 0x1000) = Some (0, [0x1000], c)"
    by auto
  with cond_demo_run show ?thesis by fastforce
qed

text \<open>
  C14. Error path of \<^verbatim>\<open>sgx_thread_cond_wait\<close>: when the caller does not hold the (valid) mutex the call
  returns \<^verbatim>\<open>EPERM\<close>, but the caller has already been queued and is not taken out again. The next signal
  on an otherwise empty condition is then spent on this thread, which is not waiting.
\<close>
theorem cond_wait_error_leaves_caller_queued:
  assumes "cond_rel nx c ws" "mutex_rel nx m a"
    and "CHECK_PARAMETER e p sizeof_cond" "CHECK_PARAMETER e pm sizeof_mutex"
    and "t \<noteq> NULL" "t \<notin> set ws" "ms_kind a \<noteq> Invalid" "ms_owner a \<noteq> Some t"
  shows "\<exists>nx' c' m'. sgx_thread_cond_wait e p pm env menv t nx c m = Some (EPERM, [], nx', c', m') \<and>
    waiting_line nx' (c_queue c') = ws @ [t] \<and>
    (ws = [] \<longrightarrow> (\<exists>c''. sgx_thread_cond_signal e p nx' c' = Some (0, [t], c'')))"
proof -
  have "sgx_thread_mutex_unlock_lazy e pm t m = Some (EPERM, None, m\<lparr>m_lock := 0\<rparr>)"
    using assms(4,5,7,8) assms(2) mutex_rel_spin [OF assms(2)]
    by (simp add: sgx_thread_mutex_unlock_lazy_def mutex_rel_simps split: if_splits)
  then obtain nx' c' where n: "cond_wait_enter e pm t nx c m = Some (Return EPERM, [], nx', c', m\<lparr>m_lock := 0\<rparr>)"
      and R: "cond_rel nx' c' (ws @ [t])"
    using cond_wait_enter_rel [OF assms(1,5,6)] by fastforce
  have "ws = [] \<Longrightarrow> \<exists>c''. sgx_thread_cond_signal e p nx' c' = Some (0, [t], c'')"
    using cond_signal_rel [OF R assms(3)] by auto
  moreover have "sgx_thread_cond_wait e p pm env menv t nx c m = Some (EPERM, [], nx', c', m\<lparr>m_lock := 0\<rparr>)"
    using n assms(3,4) by (simp add: sgx_thread_cond_wait_def)
  ultimately show ?thesis using waiting_line_eq [OF cond_relD(2) [OF R]] by blast
qed

theorem cond_wait_error_leaves_caller_queued_witness:
  "\<exists>nx' c' m' c''. sgx_thread_cond_wait demo_enclave 0x120000 0x110000 (\<lambda>_ nx c m. (nx, c, m)) (\<lambda>_ nx m. (nx, m)) 0x1000
     (\<lambda>_. 0) (demo_cond 0) (demo_mutex 0 0 0) = Some (EPERM, [], nx', c', m') \<and>
     sgx_thread_cond_signal demo_enclave 0x120000 nx' c' = Some (0, [0x1000], c'')"
proof -
  have "cond_rel (\<lambda>_. 0) (demo_cond 0) []" by (simp add: cond_rel_def demo_cond_def queue_ok_def)
  from cond_wait_error_leaves_caller_queued [OF this demo_rel demo_cond_check demo_check, of "0x1000"
      "\<lambda>_ nx c m. (nx, c, m)" "\<lambda>_ nx m. (nx, m)"]
  show ?thesis by (auto simp: spec_mutex_init_def)
qed

end
