(* ===== verification/Thread_Rwlock.thy ===== *)
theory Thread_Rwlock
  imports Thread_Mutex "HOL-Library.Multiset"
begin

text \<open>
  Trusted read/write locks (\<^verbatim>\<open>sdk/tlibthread/sethread_rwlock.cpp\<close>). As for mutexes, every operation is one
  critical section and the blocking ones alternate critical sections with untrusted waits. Waking
  threads is an OCALL whose untrusted result ends up in the return value; \<open>ocall\<close> maps the threads to
  be woken to that result.
\<close>

section \<open>The code\<close>

record sgx_thread_rwlock =
  rw_reader_count :: u32
  rw_writers_waiting :: u32
  rw_lock :: u32
  rw_owner :: addr
  rw_reader_queue :: sgx_thread_queue
  rw_writer_queue :: sgx_thread_queue

abbreviation (input) sizeof_rwlock :: u64 where "sizeof_rwlock \<equiv> 56"

definition rw_spin_unlock :: "sgx_thread_rwlock \<Rightarrow> sgx_thread_rwlock" where
  "rw_spin_unlock w = w\<lparr>rw_lock := sgx_spin_unlock (rw_lock w)\<rparr>"

definition sgx_thread_rwlock_init ::
  "enclave_range \<Rightarrow> addr \<Rightarrow> sgx_thread_rwlock \<Rightarrow> int \<times> sgx_thread_rwlock" where
  "sgx_thread_rwlock_init e p w =
     (if \<not> CHECK_PARAMETER e p sizeof_rwlock then (EINVAL, w)
      else (0, w\<lparr>rw_reader_count := 0, rw_writers_waiting := 0, rw_owner := NULL, rw_lock := 0,
                 rw_reader_queue := QUEUE_INIT, rw_writer_queue := QUEUE_INIT\<rparr>))"

definition sgx_thread_rwlock_destroy ::
  "enclave_range \<Rightarrow> addr \<Rightarrow> sgx_thread_rwlock \<Rightarrow> (int \<times> sgx_thread_rwlock) option" where
  "sgx_thread_rwlock_destroy e p w =
     (if \<not> CHECK_PARAMETER e p sizeof_rwlock then Some (EINVAL, w)
      else do {
        l \<leftarrow> sgx_spin_lock (rw_lock w);
        let w = w\<lparr>rw_lock := l\<rparr>;
        if rw_owner w \<noteq> NULL \<or> rw_reader_count w \<noteq> 0 \<or> rw_writers_waiting w \<noteq> 0
           \<or> QUEUE_FIRST (rw_reader_queue w) \<noteq> NULL \<or> QUEUE_FIRST (rw_writer_queue w) \<noteq> NULL
        then Some (EBUSY, rw_spin_unlock w)
        else Some (0, rw_spin_unlock w)
      })"

text \<open>The first section of \<^verbatim>\<open>sgx_thread_rwlock_rdlock\<close>, and the section after each of its waits.\<close>

definition rdlock_enter ::
  "addr \<Rightarrow> tstore \<Rightarrow> sgx_thread_rwlock \<Rightarrow> (turn \<times> tstore \<times> sgx_thread_rwlock) option" where
  "rdlock_enter self nx w = do {
     l \<leftarrow> sgx_spin_lock (rw_lock w);
     let w = w\<lparr>rw_lock := l\<rparr>;
     if rw_owner w = NULL
     then Some (Return 0, nx, rw_spin_unlock (w\<lparr>rw_reader_count := rw_reader_count w + 1\<rparr>))
     else if rw_owner w = self then Some (Return EDEADLK, nx, rw_spin_unlock w)
     else case QUEUE_INSERT_TAIL nx (rw_reader_queue w) self of
            (nx, q) \<Rightarrow> Some (Wait, nx, rw_spin_unlock (w\<lparr>rw_reader_queue := q\<rparr>))
   }"

definition rdlock_turn ::
  "addr \<Rightarrow> tstore \<Rightarrow> sgx_thread_rwlock \<Rightarrow> (turn \<times> tstore \<times> sgx_thread_rwlock) option" where
  "rdlock_turn self nx w = do {
     l \<leftarrow> sgx_spin_lock (rw_lock w);
     let w = w\<lparr>rw_lock := l\<rparr>;
     if rw_owner w = NULL
     then do {
       let w = w\<lparr>rw_reader_count := rw_reader_count w + 1\<rparr>;
       (nx, q) \<leftarrow> QUEUE_REMOVE nx (rw_reader_queue w) self;
       Some (Return 0, nx, rw_spin_unlock (w\<lparr>rw_reader_queue := q\<rparr>))
     }
     else Some (Wait, nx, rw_spin_unlock w)
   }"

type_synonym rwlock_env = "nat \<Rightarrow> tstore \<Rightarrow> sgx_thread_rwlock \<Rightarrow> tstore \<times> sgx_thread_rwlock"

text \<open>
  The waiting loop shared by the two blocking calls: \<open>env k\<close> is what other threads do during the
  \<open>k\<close>-th untrusted wait, \<open>turn\<close> the section run after it.
\<close>

partial_function (option) rwlock_wait_loop ::
  "(tstore \<Rightarrow> sgx_thread_rwlock \<Rightarrow> (turn \<times> tstore \<times> sgx_thread_rwlock) option) \<Rightarrow> rwlock_env \<Rightarrow> nat \<Rightarrow>
   tstore \<Rightarrow> sgx_thread_rwlock \<Rightarrow> (int \<times> tstore \<times> sgx_thread_rwlock) option" where
  "rwlock_wait_loop f env k nx w =
     (case env k nx w of (nx, w) \<Rightarrow> do {
        (r, nx, w) \<leftarrow> f nx w;
        (case r of
           Return rc \<Rightarrow> Some (rc, nx, w)
         | Wait \<Rightarrow> rwlock_wait_loop f env (Suc k) nx w)
      })"

definition sgx_thread_rwlock_rdlock ::
  "enclave_range \<Rightarrow> addr \<Rightarrow> rwlock_env \<Rightarrow> addr \<Rightarrow> tstore \<Rightarrow> sgx_thread_rwlock \<Rightarrow>
   (int \<times> tstore \<times> sgx_thread_rwlock) option" where
  "sgx_thread_rwlock_rdlock e p env self nx w =
     (if \<not> CHECK_PARAMETER e p sizeof_rwlock then Some (EINVAL, nx, w)
      else do {
        (r, nx, w) \<leftarrow> rdlock_enter self nx w;
        (case r of
           Return rc \<Rightarrow> Some (rc, nx, w)
         | Wait \<Rightarrow> rwlock_wait_loop (rdlock_turn self) env 0 nx w)
      })"

definition sgx_thread_rwlock_tryrdlock ::
  "enclave_range \<Rightarrow> addr \<Rightarrow> sgx_thread_rwlock \<Rightarrow> (int \<times> sgx_thread_rwlock) option" where
  "sgx_thread_rwlock_tryrdlock e p w =
     (if \<not> CHECK_PARAMETER e p sizeof_rwlock then Some (EINVAL, w)
      else do {
        l \<leftarrow> sgx_spin_lock (rw_lock w);
        let w = w\<lparr>rw_lock := l\<rparr>;
        if rw_owner w = NULL
        then Some (0, rw_spin_unlock (w\<lparr>rw_reader_count := rw_reader_count w + 1\<rparr>))
        else Some (EBUSY, rw_spin_unlock w)
      })"

definition wrlock_enter ::
  "addr \<Rightarrow> tstore \<Rightarrow> sgx_thread_rwlock \<Rightarrow> (turn \<times> tstore \<times> sgx_thread_rwlock) option" where
  "wrlock_enter self nx w = do {
     l \<leftarrow> sgx_spin_lock (rw_lock w);
     let w = w\<lparr>rw_lock := l\<rparr>;
     if rw_owner w = NULL \<and> rw_reader_count w = 0
     then Some (Return 0, nx, rw_spin_unlock (w\<lparr>rw_owner := self\<rparr>))
     else if rw_owner w = self then Some (Return EDEADLK, nx, rw_spin_unlock w)
     else case QUEUE_INSERT_TAIL nx (rw_writer_queue w) self of
            (nx, q) \<Rightarrow> Some (Wait, nx, rw_spin_unlock (w\<lparr>rw_writer_queue := q\<rparr>))
   }"

definition wrlock_turn ::
  "addr \<Rightarrow> tstore \<Rightarrow> sgx_thread_rwlock \<Rightarrow> (turn \<times> tstore \<times> sgx_thread_rwlock) option" where
  "wrlock_turn self nx w = do {
     l \<leftarrow> sgx_spin_lock (rw_lock w);
     let w = w\<lparr>rw_lock := l\<rparr>;
     if rw_owner w = NULL \<and> rw_reader_count w = 0
     then do {
       let w = w\<lparr>rw_owner := self\<rparr>;
       (nx, q) \<leftarrow> QUEUE_REMOVE nx (rw_writer_queue w) self;
       Some (Return 0, nx, rw_spin_unlock (w\<lparr>rw_writer_queue := q\<rparr>))
     }
     else Some (Wait, nx, rw_spin_unlock w)
   }"

definition sgx_thread_rwlock_wrlock ::
  "enclave_range \<Rightarrow> addr \<Rightarrow> rwlock_env \<Rightarrow> addr \<Rightarrow> tstore \<Rightarrow> sgx_thread_rwlock \<Rightarrow>
   (int \<times> tstore \<times> sgx_thread_rwlock) option" where
  "sgx_thread_rwlock_wrlock e p env self nx w =
     (if \<not> CHECK_PARAMETER e p sizeof_rwlock then Some (EINVAL, nx, w)
      else do {
        (r, nx, w) \<leftarrow> wrlock_enter self nx w;
        (case r of
           Return rc \<Rightarrow> Some (rc, nx, w)
         | Wait \<Rightarrow> rwlock_wait_loop (wrlock_turn self) env 0 nx w)
      })"

definition sgx_thread_rwlock_trywrlock ::
  "enclave_range \<Rightarrow> addr \<Rightarrow> addr \<Rightarrow> sgx_thread_rwlock \<Rightarrow> (int \<times> sgx_thread_rwlock) option" where
  "sgx_thread_rwlock_trywrlock e p self w =
     (if \<not> CHECK_PARAMETER e p sizeof_rwlock then Some (EINVAL, w)
      else do {
        l \<leftarrow> sgx_spin_lock (rw_lock w);
        let w = w\<lparr>rw_lock := l\<rparr>;
        if rw_owner w = NULL \<and> rw_reader_count w = 0
        then Some (0, rw_spin_unlock (w\<lparr>rw_owner := self\<rparr>))
        else Some (EBUSY, rw_spin_unlock w)
      })"

text \<open>The unlock calls do not check their parameter. The list holds the threads woken.\<close>

definition sgx_thread_rwlock_rdunlock ::
  "(addr list \<Rightarrow> int) \<Rightarrow> sgx_thread_rwlock \<Rightarrow> (int \<times> addr list \<times> sgx_thread_rwlock) option" where
  "sgx_thread_rwlock_rdunlock ocall w = do {
     l \<leftarrow> sgx_spin_lock (rw_lock w);
     let w = w\<lparr>rw_lock := l\<rparr>;
     if rw_reader_count w = 0 then Some (EPERM, [], rw_spin_unlock w)
     else
       let w = w\<lparr>rw_reader_count := rw_reader_count w - 1\<rparr> in
       if rw_reader_count w = 0
       then let waiter = QUEUE_FIRST (rw_writer_queue w); w = rw_spin_unlock w in
            if waiter \<noteq> NULL then Some (ocall [waiter], [waiter], w) else Some (0, [], w)
       else Some (0, [], rw_spin_unlock w)
   }"

definition sgx_thread_rwlock_wrunlock ::
  "(u64 \<Rightarrow> bool) \<Rightarrow> (addr list \<Rightarrow> int) \<Rightarrow> addr \<Rightarrow> tstore \<Rightarrow> sgx_thread_rwlock \<Rightarrow>
   (int \<times> addr list \<times> sgx_thread_rwlock) option" where
  "sgx_thread_rwlock_wrunlock malloc ocall self nx w = do {
     l \<leftarrow> sgx_spin_lock (rw_lock w);
     let w = w\<lparr>rw_lock := l\<rparr>;
     if rw_owner w \<noteq> self then Some (EPERM, [], rw_spin_unlock w)
     else do {
       let w = w\<lparr>rw_owner := NULL\<rparr>;
       if QUEUE_FIRST (rw_reader_queue w) \<noteq> NULL
       then do {
         iCount \<leftarrow> QUEUE_COUNT_ALL nx (rw_reader_queue w);
         if \<not> malloc (iCount * 8) then Some (ENOMEM, [], rw_spin_unlock w)
         else do {
           ppWaiters \<leftarrow> queue_collect nx (QUEUE_FIRST (rw_reader_queue w)) [];
           Some (ocall ppWaiters, ppWaiters, rw_spin_unlock w)
         }
       }
       else
         let waiter = QUEUE_FIRST (rw_writer_queue w); w = rw_spin_unlock w in
         if waiter \<noteq> NULL then Some (ocall [waiter], [waiter], w) else Some (0, [], w)
     }
   }"

definition sgx_thread_rwlock_unlock ::
  "(u64 \<Rightarrow> bool) \<Rightarrow> (addr list \<Rightarrow> int) \<Rightarrow> addr \<Rightarrow> tstore \<Rightarrow> sgx_thread_rwlock \<Rightarrow>
   (int \<times> addr list \<times> sgx_thread_rwlock) option" where
  "sgx_thread_rwlock_unlock malloc ocall self nx w =
     (if rw_owner w = self then sgx_thread_rwlock_wrunlock malloc ocall self nx w
      else sgx_thread_rwlock_rdunlock ocall w)"

section \<open>Sections on a well-formed lock\<close>

definition rw_rel :: "tstore \<Rightarrow> sgx_thread_rwlock \<Rightarrow> addr list \<Rightarrow> addr list \<Rightarrow> bool" where
  "rw_rel nx w rs ws \<longleftrightarrow> rw_lock w = 0 \<and> queue_ok nx (rw_reader_queue w) rs \<and>
     queue_ok nx (rw_writer_queue w) ws \<and> set rs \<inter> set ws = {}"

lemma rw_relD:
  assumes "rw_rel nx w rs ws"
  shows "sgx_spin_lock (rw_lock w) = Some 1" "rw_lock w = 0" "queue_ok nx (rw_reader_queue w) rs"
    "queue_ok nx (rw_writer_queue w) ws" "set rs \<inter> set ws = {}" "w\<lparr>rw_lock := 0\<rparr> = w"
  using assms by (simp_all add: rw_rel_def)

lemma rw_rel_frame: "rw_rel nx w rs ws \<Longrightarrow> \<forall>x\<in>set rs \<union> set ws. nx' x = nx x \<Longrightarrow> rw_rel nx' w rs ws"
  unfolding rw_rel_def using wq.rep_frame by blast

text \<open>The step lemmas: each section returns, frees the spin lock, and keeps the two lines well formed.\<close>

lemma rdlock_enter_rel:
  assumes R: "rw_rel nx w rs ws" and t: "t \<noteq> NULL" "t \<notin> set rs" "t \<notin> set ws"
  shows "rdlock_enter t nx w =
      (if rw_owner w = NULL then Some (Return 0, nx, w\<lparr>rw_reader_count := rw_reader_count w + 1\<rparr>)
       else if rw_owner w = t then Some (Return EDEADLK, nx, w)
       else Some (Wait, fst (QUEUE_INSERT_TAIL nx (rw_reader_queue w) t),
              w\<lparr>rw_reader_queue := snd (QUEUE_INSERT_TAIL nx (rw_reader_queue w) t)\<rparr>))"
    and "rw_rel (fst (QUEUE_INSERT_TAIL nx (rw_reader_queue w) t))
      (w\<lparr>rw_reader_queue := snd (QUEUE_INSERT_TAIL nx (rw_reader_queue w) t)\<rparr>) (rs @ [t]) ws"
proof -
  note D = rw_relD [OF R]
  show "rdlock_enter t nx w =
      (if rw_owner w = NULL then Some (Return 0, nx, w\<lparr>rw_reader_count := rw_reader_count w + 1\<rparr>)
       else if rw_owner w = t then Some (Return EDEADLK, nx, w)
       else Some (Wait, fst (QUEUE_INSERT_TAIL nx (rw_reader_queue w) t),
              w\<lparr>rw_reader_queue := snd (QUEUE_INSERT_TAIL nx (rw_reader_queue w) t)\<rparr>))"
    using D(1,2) by (simp add: rdlock_enter_def rw_spin_unlock_def split_beta)
  have "queue_ok (fst (QUEUE_INSERT_TAIL nx (rw_reader_queue w) t)) (rw_writer_queue w) ws"
    using wq.insert_agree [OF D(3), of "set ws" t] D(5) t by (intro wq.rep_frame [OF D(4)]) auto
  moreover have "queue_ok (fst (QUEUE_INSERT_TAIL nx (rw_reader_queue w) t))
      (snd (QUEUE_INSERT_TAIL nx (rw_reader_queue w) t)) (rs @ [t])"
    using wq.rep_insert [OF D(3) t(1,2)] by (simp add: split_beta)
  ultimately show "rw_rel (fst (QUEUE_INSERT_TAIL nx (rw_reader_queue w) t))
      (w\<lparr>rw_reader_queue := snd (QUEUE_INSERT_TAIL nx (rw_reader_queue w) t)\<rparr>) (rs @ [t]) ws"
    using D t by (simp add: rw_rel_def)
qed

lemma wrlock_enter_rel:
  assumes R: "rw_rel nx w rs ws" and t: "t \<noteq> NULL" "t \<notin> set rs" "t \<notin> set ws"
  shows "wrlock_enter t nx w =
      (if rw_owner w = NULL \<and> rw_reader_count w = 0 then Some (Return 0, nx, w\<lparr>rw_owner := t\<rparr>)
       else if rw_owner w = t then Some (Return EDEADLK, nx, w)
       else Some (Wait, fst (QUEUE_INSERT_TAIL nx (rw_writer_queue w) t),
              w\<lparr>rw_writer_queue := snd (QUEUE_INSERT_TAIL nx (rw_writer_queue w) t)\<rparr>))"
    and "rw_rel (fst (QUEUE_INSERT_TAIL nx (rw_writer_queue w) t))
      (w\<lparr>rw_writer_queue := snd (QUEUE_INSERT_TAIL nx (rw_writer_queue w) t)\<rparr>) rs (ws @ [t])"
proof -
  note D = rw_relD [OF R]
  show "wrlock_enter t nx w =
      (if rw_owner w = NULL \<and> rw_reader_count w = 0 then Some (Return 0, nx, w\<lparr>rw_owner := t\<rparr>)
       else if rw_owner w = t then Some (Return EDEADLK, nx, w)
       else Some (Wait, fst (QUEUE_INSERT_TAIL nx (rw_writer_queue w) t),
              w\<lparr>rw_writer_queue := snd (QUEUE_INSERT_TAIL nx (rw_writer_queue w) t)\<rparr>))"
    using D(1,2) by (simp add: wrlock_enter_def rw_spin_unlock_def split_beta Let_def)
  have "queue_ok (fst (QUEUE_INSERT_TAIL nx (rw_writer_queue w) t)) (rw_reader_queue w) rs"
    using wq.insert_agree [OF D(4), of "set rs" t] D(5) t by (intro wq.rep_frame [OF D(3)]) auto
  moreover have "queue_ok (fst (QUEUE_INSERT_TAIL nx (rw_writer_queue w) t))
      (snd (QUEUE_INSERT_TAIL nx (rw_writer_queue w) t)) (ws @ [t])"
    using wq.rep_insert [OF D(4) t(1,3)] by (simp add: split_beta)
  ultimately show "rw_rel (fst (QUEUE_INSERT_TAIL nx (rw_writer_queue w) t))
      (w\<lparr>rw_writer_queue := snd (QUEUE_INSERT_TAIL nx (rw_writer_queue w) t)\<rparr>) rs (ws @ [t])"
    using D t by (simp add: rw_rel_def)
qed

lemma rdlock_turn_rel:
  assumes R: "rw_rel nx w rs ws"
  shows "\<exists>nx' q. rdlock_turn t nx w =
      (if rw_owner w = NULL
       then Some (Return 0, nx', w\<lparr>rw_reader_count := rw_reader_count w + 1, rw_reader_queue := q\<rparr>)
       else Some (Wait, nx, w)) \<and>
    rw_rel nx' (w\<lparr>rw_reader_queue := q\<rparr>) (remove1 t rs) ws"
proof -
  note D = rw_relD [OF R]
  obtain nx' q where q: "QUEUE_REMOVE nx (rw_reader_queue w) t = Some (nx', q)" "queue_ok nx' q (remove1 t rs)"
    "\<forall>A. A \<inter> set rs = {} \<longrightarrow> (\<forall>x\<in>A. nx' x = nx x)"
    using wq.rep_remove [OF D(3), of t] by blast
  have "queue_ok nx' (rw_writer_queue w) ws"
    using q(3) D(5) by (intro wq.rep_frame [OF D(4)]) blast
  with q D show ?thesis
    using set_remove1_subset [of t rs]
    by (intro exI [of _ nx'] exI [of _ q]) (auto simp: rdlock_turn_def rw_spin_unlock_def rw_rel_def)
qed

lemma wrlock_turn_rel:
  assumes R: "rw_rel nx w rs ws"
  shows "\<exists>nx' q. wrlock_turn t nx w =
      (if rw_owner w = NULL \<and> rw_reader_count w = 0
       then Some (Return 0, nx', w\<lparr>rw_owner := t, rw_writer_queue := q\<rparr>)
       else Some (Wait, nx, w)) \<and>
    rw_rel nx' (w\<lparr>rw_writer_queue := q\<rparr>) rs (remove1 t ws)"
proof -
  note D = rw_relD [OF R]
  obtain nx' q where q: "QUEUE_REMOVE nx (rw_writer_queue w) t = Some (nx', q)" "queue_ok nx' q (remove1 t ws)"
    "\<forall>A. A \<inter> set ws = {} \<longrightarrow> (\<forall>x\<in>A. nx' x = nx x)"
    using wq.rep_remove [OF D(4), of t] by blast
  have "queue_ok nx' (rw_reader_queue w) rs"
    using q(3) D(5) by (intro wq.rep_frame [OF D(3)]) blast
  with q D show ?thesis
    using set_remove1_subset [of t ws]
    by (intro exI [of _ nx'] exI [of _ q]) (auto simp: wrlock_turn_def rw_spin_unlock_def rw_rel_def)
qed

lemma try_rel:
  assumes R: "rw_rel nx w rs ws" and e: "CHECK_PARAMETER e p sizeof_rwlock"
  shows "sgx_thread_rwlock_tryrdlock e p w =
      (if rw_owner w = NULL then Some (0, w\<lparr>rw_reader_count := rw_reader_count w + 1\<rparr>) else Some (EBUSY, w))"
    and "sgx_thread_rwlock_trywrlock e p t w =
      (if rw_owner w = NULL \<and> rw_reader_count w = 0 then Some (0, w\<lparr>rw_owner := t\<rparr>) else Some (EBUSY, w))"
    and "\<exists>rc. sgx_thread_rwlock_destroy e p w = Some (rc, w)"
  using rw_relD(1,2) [OF R] e
  by (auto simp: sgx_thread_rwlock_tryrdlock_def sgx_thread_rwlock_trywrlock_def sgx_thread_rwlock_destroy_def
      rw_spin_unlock_def Let_def)

lemma first_event:
  "queue_ok nx q xs \<Longrightarrow> (if QUEUE_FIRST q \<noteq> NULL then [QUEUE_FIRST q] else []) = take 1 xs"
  using wq.rep_first [of nx q xs] wq.rep_nonnull [of nx q xs] by (cases xs) auto

lemma rdunlock_rel:
  assumes R: "rw_rel nx w rs ws"
  shows "\<exists>rc. sgx_thread_rwlock_rdunlock ocall w =
      (if rw_reader_count w = 0 then Some (EPERM, [], w)
       else Some (rc, if rw_reader_count w = 1 then take 1 ws else [],
                  w\<lparr>rw_reader_count := rw_reader_count w - 1\<rparr>))"
  using rw_relD [OF R] unfolding first_event [OF rw_relD(4) [OF R], symmetric]
  by (auto simp: sgx_thread_rwlock_rdunlock_def rw_spin_unlock_def Let_def)

text \<open>Which threads \<^verbatim>\<open>sgx_thread_rwlock_wrunlock\<close> wakes.\<close>

lemma wrunlock_rel:
  assumes R: "rw_rel nx w rs ws"
  shows "\<exists>rc. sgx_thread_rwlock_wrunlock malloc ocall t nx w =
      (if rw_owner w \<noteq> t then Some (EPERM, [], w)
       else if rs = [] then Some (rc, take 1 ws, w\<lparr>rw_owner := NULL\<rparr>)
       else if \<not> malloc (word_of_nat (length rs) * 8) then Some (ENOMEM, [], w\<lparr>rw_owner := NULL\<rparr>)
       else Some (rc, rs, w\<lparr>rw_owner := NULL\<rparr>))"
proof -
  note D = rw_relD [OF R]
  have f: "QUEUE_FIRST (rw_reader_queue w) = NULL \<longleftrightarrow> rs = []" using D(3) by (rule wq.first_NULL_iff)
  show ?thesis
    using D f queue_count_ok [OF D(3)] wq.rep_collect [OF D(3)]
    unfolding first_event [OF D(4), symmetric]
    by (auto simp: sgx_thread_rwlock_wrunlock_def rw_spin_unlock_def Let_def)
qed

section \<open>Threads competing for one lock\<close>

text \<open>
  Ghosts: the threads waiting as readers and as writers, the threads with a wake-up on its way, the
  multiset of read acquisitions not yet released, and the set of threads with an unreleased write
  acquisition. Threads release only what they hold. The reader count is assumed not to pass
  \<open>2 ^ 32 - 1\<close>.
\<close>

record rw_sys =
  rw_next :: tstore
  rw_rwlock :: sgx_thread_rwlock
  rblocked :: "addr set"
  wblocked :: "addr set"
  rw_pending :: "addr set"
  rholds :: "addr multiset"
  wholds :: "addr set"

definition after_rd :: "addr \<Rightarrow> turn \<Rightarrow> rw_sys \<Rightarrow> rw_sys" where
  "after_rd t r s =
     (case r of
        Wait \<Rightarrow> s\<lparr>rblocked := insert t (rblocked s)\<rparr>
      | Return rc \<Rightarrow> s\<lparr>rblocked := rblocked s - {t},
                      rholds := (if rc = 0 then add_mset t (rholds s) else rholds s)\<rparr>)"

definition after_wr :: "addr \<Rightarrow> turn \<Rightarrow> rw_sys \<Rightarrow> rw_sys" where
  "after_wr t r s =
     (case r of
        Wait \<Rightarrow> s\<lparr>wblocked := insert t (wblocked s)\<rparr>
      | Return rc \<Rightarrow> s\<lparr>wblocked := wblocked s - {t},
                      wholds := (if rc = 0 then insert t (wholds s) else wholds s)\<rparr>)"

abbreviation rw_idle :: "addr \<Rightarrow> rw_sys \<Rightarrow> bool" where
  "rw_idle t s \<equiv> t \<noteq> NULL \<and> t \<notin> rblocked s \<and> t \<notin> wblocked s"

inductive rw_step :: "enclave_range \<Rightarrow> addr \<Rightarrow> rw_sys \<Rightarrow> rw_sys \<Rightarrow> bool" for e p where
  rdlock: "rw_idle t s \<Longrightarrow> rw_reader_count (rw_rwlock s) \<noteq> - 1 \<Longrightarrow>
    rdlock_enter t (rw_next s) (rw_rwlock s) = Some (r, nx, w) \<Longrightarrow>
    rw_step e p s (after_rd t r (s\<lparr>rw_next := nx, rw_rwlock := w\<rparr>))"
| rd_resume: "t \<in> rblocked s \<Longrightarrow> rw_reader_count (rw_rwlock s) \<noteq> - 1 \<Longrightarrow>
    rdlock_turn t (rw_next s) (rw_rwlock s) = Some (r, nx, w) \<Longrightarrow>
    rw_step e p s (after_rd t r (s\<lparr>rw_next := nx, rw_rwlock := w, rw_pending := rw_pending s - {t}\<rparr>))"
| tryrdlock: "rw_idle t s \<Longrightarrow> rw_reader_count (rw_rwlock s) \<noteq> - 1 \<Longrightarrow>
    sgx_thread_rwlock_tryrdlock e p (rw_rwlock s) = Some (rc, w) \<Longrightarrow>
    rw_step e p s (after_rd t (Return rc) (s\<lparr>rw_rwlock := w\<rparr>))"
| wrlock: "rw_idle t s \<Longrightarrow> wrlock_enter t (rw_next s) (rw_rwlock s) = Some (r, nx, w) \<Longrightarrow>
    rw_step e p s (after_wr t r (s\<lparr>rw_next := nx, rw_rwlock := w\<rparr>))"
| wr_resume: "t \<in> wblocked s \<Longrightarrow> wrlock_turn t (rw_next s) (rw_rwlock s) = Some (r, nx, w) \<Longrightarrow>
    rw_step e p s (after_wr t r (s\<lparr>rw_next := nx, rw_rwlock := w, rw_pending := rw_pending s - {t}\<rparr>))"
| trywrlock: "rw_idle t s \<Longrightarrow> sgx_thread_rwlock_trywrlock e p t (rw_rwlock s) = Some (rc, w) \<Longrightarrow>
    rw_step e p s (after_wr t (Return rc) (s\<lparr>rw_rwlock := w\<rparr>))"
| rdunlock: "rw_idle t s \<Longrightarrow> t \<in># rholds s \<Longrightarrow>
    sgx_thread_rwlock_unlock malloc ocall t (rw_next s) (rw_rwlock s) = Some (rc, events, w) \<Longrightarrow>
    rw_step e p s (s\<lparr>rw_rwlock := w, rw_pending := rw_pending s \<union> set events, rholds := rholds s - {#t#}\<rparr>)"
| wrunlock: "rw_idle t s \<Longrightarrow> t \<in> wholds s \<Longrightarrow>
    sgx_thread_rwlock_unlock malloc ocall t (rw_next s) (rw_rwlock s) = Some (rc, events, w) \<Longrightarrow>
    \<forall>n. malloc n \<Longrightarrow>
    rw_step e p s (s\<lparr>rw_rwlock := w, rw_pending := rw_pending s \<union> set events, wholds := wholds s - {t}\<rparr>)"
| destroy: "sgx_thread_rwlock_destroy e p (rw_rwlock s) = Some (rc, w) \<Longrightarrow>
    rw_step e p s (s\<lparr>rw_rwlock := w\<rparr>)"
| other: "\<forall>t\<in>rblocked s \<union> wblocked s. nx t = rw_next s t \<Longrightarrow> rw_step e p s (s\<lparr>rw_next := nx\<rparr>)"

definition rw_sys_init :: "enclave_range \<Rightarrow> addr \<Rightarrow> rw_sys \<Rightarrow> bool" where
  "rw_sys_init e p s \<longleftrightarrow>
     CHECK_PARAMETER e p sizeof_rwlock \<and> rblocked s = {} \<and> wblocked s = {} \<and> rholds s = {#} \<and> wholds s = {} \<and>
     (\<exists>w. rw_rwlock s = snd (sgx_thread_rwlock_init e p w))"

definition rw_ghost ::
  "u32 \<Rightarrow> addr \<Rightarrow> addr list \<Rightarrow> addr list \<Rightarrow> addr set \<Rightarrow> addr multiset \<Rightarrow> addr set \<Rightarrow> bool" where
  "rw_ghost n own rs ws P RH WH \<longleftrightarrow>
     size RH = unat n \<and> WH = (if own = NULL then {} else {own}) \<and> (own \<noteq> NULL \<longrightarrow> n = 0) \<and>
     (own = NULL \<longrightarrow> set rs \<subseteq> P) \<and>
     (own = NULL \<and> n = 0 \<and> rs = [] \<and> ws \<noteq> [] \<longrightarrow> hd ws \<in> P)"

definition rw_sys_inv :: "enclave_range \<Rightarrow> addr \<Rightarrow> rw_sys \<Rightarrow> bool" where
  "rw_sys_inv e p s \<longleftrightarrow> CHECK_PARAMETER e p sizeof_rwlock \<and>
     (\<exists>rs ws. rw_rel (rw_next s) (rw_rwlock s) rs ws \<and> set rs = rblocked s \<and> set ws = wblocked s \<and>
        rw_ghost (rw_reader_count (rw_rwlock s)) (rw_owner (rw_rwlock s)) rs ws
          (rw_pending s) (rholds s) (wholds s))"

lemmas after_defs = after_rd_def after_wr_def

lemma after_shared [simp]:
  "rw_next (after_rd t r s) = rw_next s" "rw_rwlock (after_rd t r s) = rw_rwlock s"
  "rw_next (after_wr t r s) = rw_next s" "rw_rwlock (after_wr t r s) = rw_rwlock s"
  by (simp_all add: after_defs split: turn.split)

lemma rw_rel_upd [simp]:
  "rw_rel nx (w\<lparr>rw_reader_count := n\<rparr>) rs ws = rw_rel nx w rs ws"
  "rw_rel nx (w\<lparr>rw_owner := t\<rparr>) rs ws = rw_rel nx w rs ws"
  by (simp_all add: rw_rel_def)

text \<open>How the ghost relation moves: a reader or a writer comes in, a reader or the writer goes out.\<close>

lemma ghost_rd_acquire:
  "rw_ghost n NULL rs ws P RH WH \<Longrightarrow> n \<noteq> - 1 \<Longrightarrow> P - {t} \<subseteq> P' \<Longrightarrow> t \<notin> set rs' \<Longrightarrow> set rs' \<subseteq> set rs \<Longrightarrow>
   rw_ghost (n + 1) NULL rs' ws P' (add_mset t RH) WH"
  using unat_inc_not_max [of n] by (auto simp: rw_ghost_def add_eq_0_iff2)

lemma ghost_wr_acquire:
  "rw_ghost 0 NULL rs ws P RH WH \<Longrightarrow> t \<noteq> NULL \<Longrightarrow> rw_ghost 0 t rs ws' P' RH (insert t WH)"
  by (simp add: rw_ghost_def)

lemma ghost_pending:
  "rw_ghost n own rs ws P RH WH \<Longrightarrow> own \<noteq> NULL \<Longrightarrow> rw_ghost n own rs' ws' P' RH WH"
  by (simp add: rw_ghost_def)

lemma ghost_rd_release:
  assumes "rw_ghost n NULL rs ws P RH WH" "t \<in># RH"
  shows "rw_ghost (n - 1) NULL rs ws (P \<union> set (if n = 1 then take 1 ws else [])) (RH - {#t#}) WH" "n \<noteq> 0"
proof -
  show n0: "n \<noteq> 0" using assms by (auto simp: rw_ghost_def)
  have "size (RH - {#t#}) = unat (n - 1)"
    using assms unat_dec [OF n0] by (simp add: rw_ghost_def size_Diff_singleton)
  moreover have "ws \<noteq> [] \<Longrightarrow> hd ws \<in> set (take 1 ws)" by (cases ws) auto
  ultimately show "rw_ghost (n - 1) NULL rs ws (P \<union> set (if n = 1 then take 1 ws else [])) (RH - {#t#}) WH"
    using assms by (auto simp: rw_ghost_def)
qed

lemma ghost_wr_release:
  assumes "rw_ghost n t rs ws P RH WH" "t \<noteq> NULL"
  shows "rw_ghost n NULL rs ws (P \<union> set (if rs = [] then take 1 ws else rs)) RH (WH - {t})"
  using assms by (cases ws) (auto simp: rw_ghost_def)

lemma rw_sys_inv_step:
  assumes "rw_sys_inv e p s" "rw_step e p s s'"
  shows "rw_sys_inv e p s'"
proof -
  define n own where "n = rw_reader_count (rw_rwlock s)" and "own = rw_owner (rw_rwlock s)"
  from assms(1) obtain rs ws where c: "CHECK_PARAMETER e p sizeof_rwlock"
    and R: "rw_rel (rw_next s) (rw_rwlock s) rs ws" and b: "set rs = rblocked s" "set ws = wblocked s"
    and g: "rw_ghost n own rs ws (rw_pending s) (rholds s) (wholds s)"
    by (auto simp: rw_sys_inv_def n_def own_def)
  have nn: "t \<noteq> NULL" if "t \<in> rblocked s \<union> wblocked s" for t
    using that b wq.rep_nonnull [OF rw_relD(3) [OF R]] wq.rep_nonnull [OF rw_relD(4) [OF R]] by auto
  have d: "distinct rs" "distinct ws" using rw_relD(3,4) [OF R] by (blast intro: wq.rep_distinct)+
  from assms(2) have "\<exists>rs ws. rw_rel (rw_next s') (rw_rwlock s') rs ws \<and> set rs = rblocked s' \<and> set ws = wblocked s' \<and>
      rw_ghost (rw_reader_count (rw_rwlock s')) (rw_owner (rw_rwlock s')) rs ws (rw_pending s') (rholds s') (wholds s')"
    (is "\<exists>rs ws. ?I rs ws")
  proof cases
    case (rdlock t r nx w)
    then have t: "t \<noteq> NULL" "t \<notin> set rs" "t \<notin> set ws" using b by auto
    note E = rdlock_enter_rel [OF R t]
    consider "own = NULL" | "own = t" | "own \<noteq> NULL" "own \<noteq> t" by blast
    then show ?thesis
    proof cases
      case 1
      then have "?I rs ws" using rdlock E(1) R b t g ghost_rd_acquire [of n rs ws _ _ _ t "rw_pending s" rs]
        by (auto simp: own_def n_def after_defs)
      then show ?thesis by blast
    next
      case 2
      then have "?I rs ws" using rdlock E(1) R b t g by (auto simp: own_def n_def after_defs)
      then show ?thesis by blast
    next
      case 3
      then have "?I (rs @ [t]) ws" using rdlock E b t g ghost_pending [OF g, of "rs @ [t]" ws "rw_pending s"]
        by (auto simp: own_def n_def after_defs)
      then show ?thesis by blast
    qed
  next
    case (rd_resume t r nx w)
    obtain nx' q where E: "rdlock_turn t (rw_next s) (rw_rwlock s) =
        (if rw_owner (rw_rwlock s) = NULL
         then Some (Return 0, nx', (rw_rwlock s)\<lparr>rw_reader_count := rw_reader_count (rw_rwlock s) + 1, rw_reader_queue := q\<rparr>)
         else Some (Wait, rw_next s, rw_rwlock s))"
       "rw_rel nx' ((rw_rwlock s)\<lparr>rw_reader_queue := q\<rparr>) (remove1 t rs) ws"
      using rdlock_turn_rel [OF R, of t] by blast
    show ?thesis
    proof (cases "own = NULL")
      case True
      have "rw_rel nx' ((rw_rwlock s)\<lparr>rw_reader_count := n + 1, rw_reader_queue := q\<rparr>) (remove1 t rs) ws"
        using E(2) by (simp add: rw_rel_def)
      then have "?I (remove1 t rs) ws"
        using True rd_resume E(1) b d g
          ghost_rd_acquire [of n rs ws "rw_pending s" _ _ t "rw_pending s - {t}" "remove1 t rs"]
        by (auto simp: own_def n_def after_defs)
      then show ?thesis by blast
    next
      case False
      then have "?I rs ws" using rd_resume E(1) R b ghost_pending [OF g, of rs ws "rw_pending s - {t}"]
        by (auto simp: own_def n_def after_defs)
      then show ?thesis by blast
    qed
  next
    case (tryrdlock t rc w)
    then have "?I rs ws"
      using try_rel(1) [OF R c] R b g ghost_rd_acquire [of n rs ws "rw_pending s" _ _ t "rw_pending s" rs]
      by (cases "own = NULL") (auto simp: own_def n_def after_defs)
    then show ?thesis by blast
  next
    case (wrlock t r nx w)
    then have t: "t \<noteq> NULL" "t \<notin> set rs" "t \<notin> set ws" using b by auto
    note E = wrlock_enter_rel [OF R t]
    consider "own = NULL" "n = 0" | "own = t" | "own = NULL" "n \<noteq> 0" | "own \<noteq> NULL" "own \<noteq> t" by blast
    then show ?thesis
    proof cases
      case 1
      then have "?I rs ws" using wrlock E(1) R b t g ghost_wr_acquire [of rs ws _ _ _ t ws "rw_pending s"]
        by (auto simp: own_def n_def after_defs)
      then show ?thesis by blast
    next
      case 2
      then have "?I rs ws" using wrlock E(1) R b t g by (auto simp: own_def n_def after_defs)
      then show ?thesis by blast
    next
      case 3
      then have "?I rs (ws @ [t])" using wrlock E b t g
        by (auto simp: own_def n_def after_defs rw_ghost_def)
      then show ?thesis by blast
    next
      case 4
      then have "?I rs (ws @ [t])" using wrlock E b t ghost_pending [OF g, of rs "ws @ [t]" "rw_pending s"]
        by (auto simp: own_def n_def after_defs)
      then show ?thesis by blast
    qed
  next
    case (wr_resume t r nx w)
    obtain nx' q where E: "wrlock_turn t (rw_next s) (rw_rwlock s) =
        (if rw_owner (rw_rwlock s) = NULL \<and> rw_reader_count (rw_rwlock s) = 0
         then Some (Return 0, nx', (rw_rwlock s)\<lparr>rw_owner := t, rw_writer_queue := q\<rparr>)
         else Some (Wait, rw_next s, rw_rwlock s))"
       "rw_rel nx' ((rw_rwlock s)\<lparr>rw_writer_queue := q\<rparr>) rs (remove1 t ws)"
      using wrlock_turn_rel [OF R, of t] by blast
    show ?thesis
    proof (cases "own = NULL \<and> n = 0")
      case True
      have "rw_rel nx' ((rw_rwlock s)\<lparr>rw_owner := t, rw_writer_queue := q\<rparr>) rs (remove1 t ws)"
        using E(2) by (simp add: rw_rel_def)
      then have "?I rs (remove1 t ws)"
        using True wr_resume E(1) b d g nn [of t]
          ghost_wr_acquire [of rs ws "rw_pending s" _ _ t "remove1 t ws" "rw_pending s - {t}"]
        by (auto simp: own_def n_def after_defs)
      then show ?thesis by blast
    next
      case False
      have "t \<notin> set rs" using wr_resume(2) b rw_relD(5) [OF R] by auto
      then have "rw_ghost n own rs ws (rw_pending s - {t}) (rholds s) (wholds s)"
        using g False by (auto simp: rw_ghost_def)
      then have "?I rs ws" using False wr_resume E(1) R b
        by (auto simp: own_def n_def after_defs insert_absorb)
      then show ?thesis by blast
    qed
  next
    case (trywrlock t rc w)
    then have "?I rs ws"
      using try_rel(2) [OF R c, of t] R b g ghost_wr_acquire [of rs ws "rw_pending s" _ _ t ws "rw_pending s"]
      by (cases "own = NULL \<and> n = 0") (auto simp: own_def n_def after_defs)
    then show ?thesis by blast
  next
    case (rdunlock t malloc ocall rc events w)
    then have own: "own = NULL" using g by (auto simp: rw_ghost_def)
    note G = ghost_rd_release [OF g [unfolded own] rdunlock(3)]
    have "rw_owner (rw_rwlock s) \<noteq> t" using own rdunlock(2) by (simp add: own_def)
    then obtain rc' where "Some (rc, events, w) = Some (rc', if n = 1 then take 1 ws else [],
        (rw_rwlock s)\<lparr>rw_reader_count := n - 1\<rparr>)"
      using rdunlock(4) rdunlock_rel [OF R, of ocall] G(2)
      by (auto simp: sgx_thread_rwlock_unlock_def n_def)
    then have "?I rs ws" using rdunlock R b G(1) own by (simp add: own_def)
    then show ?thesis by blast
  next
    case (wrunlock t malloc ocall rc events w)
    then have own: "own = t" using g by (auto simp: rw_ghost_def split: if_splits)
    then obtain rc' where "Some (rc, events, w) = Some (rc', if rs = [] then take 1 ws else rs,
        (rw_rwlock s)\<lparr>rw_owner := NULL\<rparr>)"
      using wrunlock(4,5) wrunlock_rel [OF R, of malloc ocall t]
      by (auto simp: sgx_thread_rwlock_unlock_def own_def split: if_splits)
    then have "?I rs ws" using wrunlock R b ghost_wr_release [OF g [unfolded own]] by (simp add: n_def)
    then show ?thesis by blast
  next
    case (destroy rc w)
    then have "?I rs ws" using try_rel(3) [OF R c] R b g by (auto simp: own_def n_def)
    then show ?thesis by blast
  next
    case (other nx)
    then have "?I rs ws" using rw_rel_frame [OF R, of nx] b g by (simp add: own_def n_def)
    then show ?thesis by blast
  qed
  with c show ?thesis by (simp add: rw_sys_inv_def)
qed

interpretation rw: invariant_system "rw_sys_init e p" "rw_step e p" "rw_sys_inv e p"
proof unfold_locales
  show "rw_sys_inv e p s" if "rw_sys_init e p s" for s
    using that
    by (auto simp: rw_sys_inv_def rw_sys_init_def rw_ghost_def rw_rel_def sgx_thread_rwlock_init_def queue_ok_init
        intro!: exI [of _ "[]"])
qed (fact rw_sys_inv_step)

section \<open>Properties\<close>

lemma rw_reachableE:
  assumes "reachable (rw_sys_init e p) (rw_step e p) s"
  obtains rs ws where "CHECK_PARAMETER e p sizeof_rwlock" "rw_rel (rw_next s) (rw_rwlock s) rs ws"
    "set rs = rblocked s" "set ws = wblocked s"
    "rw_ghost (rw_reader_count (rw_rwlock s)) (rw_owner (rw_rwlock s)) rs ws (rw_pending s) (rholds s) (wholds s)"
  using rw.reachable_inv [OF assms] by (auto simp: rw_sys_inv_def)

text \<open>
  A run used by the witnesses: thread \<open>0x1000\<close> takes the write lock, thread \<open>0x2000\<close> asks for a read lock
  and waits, thread \<open>0x1000\<close> unlocks.
\<close>

definition demo_rwlock :: "addr \<Rightarrow> addr \<Rightarrow> sgx_thread_rwlock" where
  "demo_rwlock own r = \<lparr>rw_reader_count = 0, rw_writers_waiting = 0, rw_lock = 0, rw_owner = own,
     rw_reader_queue = \<lparr>m_first = r, m_last = r\<rparr>, rw_writer_queue = \<lparr>m_first = 0, m_last = 0\<rparr>\<rparr>"

lemma demo_rw_check: "CHECK_PARAMETER demo_enclave 0x130000 sizeof_rwlock"
  by (simp add: CHECK_PARAMETER_def demo_enclave_def sgx_is_within_enclave_def)

lemma demo_rw_rel: "t \<noteq> NULL \<Longrightarrow> rw_rel (\<lambda>_. 0) (demo_rwlock own t) [t] []"
  by (simp add: rw_rel_def demo_rwlock_def queue_ok_def)

lemma rw_demo_run:
  defines "R \<equiv> reachable (rw_sys_init demo_enclave 0x130000) (rw_step demo_enclave 0x130000)"
    and "queued \<equiv> \<lparr>rw_next = (\<lambda>_. 0), rw_rwlock = demo_rwlock 0x1000 0x2000, rblocked = {0x2000}, wblocked = {},
      rw_pending = {}, rholds = {#}, wholds = {0x1000}\<rparr>"
    and "freed \<equiv> \<lparr>rw_next = (\<lambda>_. 0), rw_rwlock = demo_rwlock 0 0x2000, rblocked = {0x2000}, wblocked = {},
      rw_pending = {0x2000}, rholds = {#}, wholds = {}\<rparr>"
  shows "R queued" "R freed"
proof -
  define s0 where "s0 = \<lparr>rw_next = (\<lambda>_. 0), rw_rwlock = demo_rwlock 0 0, rblocked = {}, wblocked = {},
      rw_pending = {}, rholds = {#}, wholds = {}\<rparr>"
  define s1 where "s1 = \<lparr>rw_next = (\<lambda>_. 0), rw_rwlock = demo_rwlock 0x1000 0, rblocked = {}, wblocked = {},
      rw_pending = {}, rholds = {#}, wholds = {0x1000}\<rparr>"
  have "rw_rwlock s0 = snd (sgx_thread_rwlock_init demo_enclave 0x130000 (demo_rwlock 0 0))"
    using demo_rw_check by (simp add: s0_def sgx_thread_rwlock_init_def demo_rwlock_def QUEUE_INIT_def)
  then have "rw_sys_init demo_enclave 0x130000 s0"
    unfolding rw_sys_init_def using demo_rw_check by (auto simp: s0_def)
  then have r0: "R s0" unfolding R_def by (rule reach_init)
  have w: "wrlock_enter 0x1000 (rw_next s0) (rw_rwlock s0) = Some (Return 0, \<lambda>_. 0, demo_rwlock 0x1000 0)"
    by (simp add: s0_def demo_rwlock_def wrlock_enter_def rw_spin_unlock_def)
  have "rw_step demo_enclave 0x130000 s0 s1"
    using rw_step.wrlock [OF _ w, of demo_enclave "0x130000"] by (simp add: s0_def s1_def after_defs)
  with r0 have r1: "R s1" unfolding R_def by (rule reach_step)
  have r: "rdlock_enter 0x2000 (rw_next s1) (rw_rwlock s1) = Some (Wait, \<lambda>_. 0, demo_rwlock 0x1000 0x2000)"
    by (simp add: s1_def demo_rwlock_def rdlock_enter_def rw_spin_unlock_def QUEUE_INSERT_TAIL_def fun_eq_iff)
  have "rw_step demo_enclave 0x130000 s1 queued"
    using rw_step.rdlock [OF _ _ r, of demo_enclave "0x130000"]
    by (simp add: s1_def queued_def after_defs demo_rwlock_def)
  with r1 show r2: "R queued" unfolding R_def by (rule reach_step)
  have rel: "rw_rel (rw_next queued) (rw_rwlock queued) [0x2000] []"
    using demo_rw_rel [of "0x2000"] by (simp add: queued_def)
  have own: "rw_owner (rw_rwlock queued) = 0x1000" by (simp add: queued_def demo_rwlock_def)
  obtain rc where u: "sgx_thread_rwlock_unlock (\<lambda>_. True) (\<lambda>_. 0) 0x1000 (rw_next queued) (rw_rwlock queued) =
      Some (rc, [0x2000], (rw_rwlock queued)\<lparr>rw_owner := NULL\<rparr>)"
    using wrunlock_rel [OF rel, of "\<lambda>_. True" "\<lambda>_. 0" "0x1000"] own
    by (auto simp: sgx_thread_rwlock_unlock_def)
  have "rw_step demo_enclave 0x130000 queued freed"
    using rw_step.wrunlock [OF _ _ u, of demo_enclave "0x130000"]
    by (simp add: queued_def freed_def demo_rwlock_def)
  with r2 show "R freed" unfolding R_def by (rule reach_step)
qed

text \<open>
  C9. Readers and writers exclude each other: in every reachable state at most one thread holds the
  write lock, nobody holds a read lock while it does, the owner field names the writer, the reader
  count is the number of unreleased read acquisitions, and the object's spin lock is free between
  operations. In these runs the allocation of \<^verbatim>\<open>sgx_thread_rwlock_wrunlock\<close> succeeds; the runs where it fails
  are not covered here.
\<close>
theorem rwlock_exclusion:
  assumes "reachable (rw_sys_init e p) (rw_step e p) s"
  shows "(t \<in> wholds s \<longrightarrow> u \<in> wholds s \<longrightarrow> t = u)
    \<and> (wholds s \<noteq> {} \<longrightarrow> rholds s = {#})
    \<and> (t \<in> wholds s \<longleftrightarrow> t \<noteq> NULL \<and> rw_owner (rw_rwlock s) = t)
    \<and> size (rholds s) = unat (rw_reader_count (rw_rwlock s))
    \<and> rw_lock (rw_rwlock s) = 0"
proof -
  obtain rs ws where "rw_rel (rw_next s) (rw_rwlock s) rs ws"
    "rw_ghost (rw_reader_count (rw_rwlock s)) (rw_owner (rw_rwlock s)) rs ws (rw_pending s) (rholds s) (wholds s)"
    using assms by (rule rw_reachableE)
  then show ?thesis by (auto simp: rw_ghost_def dest: rw_relD(2) split: if_splits)
qed

theorem rwlock_exclusion_witness:
  "\<exists>s. reachable (rw_sys_init demo_enclave 0x130000) (rw_step demo_enclave 0x130000) s \<and>
     wholds s = {0x1000} \<and> rblocked s = {0x2000} \<and> rholds s = {#} \<and> rw_owner (rw_rwlock s) = 0x1000"
proof -
  note t = rwlock_exclusion [OF rw_demo_run(1), of "0x1000" "0x1000"]
  show ?thesis by (rule exI, rule conjI, rule rw_demo_run(1)) (use t in simp)
qed

text \<open>
  C10. No lost wake-up (while \<^verbatim>\<open>malloc\<close> serves the unlock calls): in every reachable state without a
  writer, every waiting reader has a wake-up on its way and acquires as soon as it resumes; if the
  lock is completely free and only writers wait, the first of them has a wake-up on its way and
  becomes the owner as soon as it resumes.
\<close>
theorem rwlock_no_lost_wakeup:
  assumes "reachable (rw_sys_init e p) (rw_step e p) s" "rw_owner (rw_rwlock s) = NULL"
  shows "(\<forall>t \<in> rblocked s. t \<in> rw_pending s \<and>
            (\<exists>nx w. rdlock_turn t (rw_next s) (rw_rwlock s) = Some (Return 0, nx, w) \<and>
               rw_reader_count w = rw_reader_count (rw_rwlock s) + 1 \<and>
               waiting_line nx (rw_reader_queue w) =
                 remove1 t (waiting_line (rw_next s) (rw_reader_queue (rw_rwlock s)))))
    \<and> (rw_reader_count (rw_rwlock s) = 0 \<and> rblocked s = {} \<and> wblocked s \<noteq> {} \<longrightarrow>
         (\<exists>t ts nx w. waiting_line (rw_next s) (rw_writer_queue (rw_rwlock s)) = t # ts \<and> t \<in> rw_pending s \<and>
            wrlock_turn t (rw_next s) (rw_rwlock s) = Some (Return 0, nx, w) \<and> rw_owner w = t \<and>
            waiting_line nx (rw_writer_queue w) = ts))"
proof -
  obtain rs ws where R: "rw_rel (rw_next s) (rw_rwlock s) rs ws" and b: "set rs = rblocked s" "set ws = wblocked s"
    and g: "rw_ghost (rw_reader_count (rw_rwlock s)) NULL rs ws (rw_pending s) (rholds s) (wholds s)"
    using assms(1) unfolding assms(2) [symmetric] by (rule rw_reachableE)
  have rline: "waiting_line nx (rw_reader_queue w) = xs" if "rw_rel nx w xs ys" for nx w xs ys
    using rw_relD(3) [OF that] by (rule waiting_line_eq)
  have wline: "waiting_line nx (rw_writer_queue w) = ys" if "rw_rel nx w xs ys" for nx w xs ys
    using rw_relD(4) [OF that] by (rule waiting_line_eq)
  have rd: "\<exists>nx w. rdlock_turn t (rw_next s) (rw_rwlock s) = Some (Return 0, nx, w) \<and>
      rw_reader_count w = rw_reader_count (rw_rwlock s) + 1 \<and> waiting_line nx (rw_reader_queue w) = remove1 t rs" for t
  proof -
    obtain nx q where "rdlock_turn t (rw_next s) (rw_rwlock s) = Some (Return 0, nx, (rw_rwlock s)
        \<lparr>rw_reader_count := rw_reader_count (rw_rwlock s) + 1, rw_reader_queue := q\<rparr>)"
      "rw_rel nx ((rw_rwlock s)\<lparr>rw_reader_queue := q\<rparr>) (remove1 t rs) ws"
      using rdlock_turn_rel [OF R, of t] assms(2) by auto
    then show ?thesis using rline by fastforce
  qed
  have wr: "\<exists>t ts nx w. ws = t # ts \<and> t \<in> rw_pending s \<and>
      wrlock_turn t (rw_next s) (rw_rwlock s) = Some (Return 0, nx, w) \<and> rw_owner w = t \<and>
      waiting_line nx (rw_writer_queue w) = ts"
    if free: "rw_reader_count (rw_rwlock s) = 0" "rblocked s = {}" "wblocked s \<noteq> {}"
  proof -
    from b(2) free(3) obtain t ts where ws: "ws = t # ts" by (cases ws) auto
    with g free b have "t \<in> rw_pending s" by (simp add: rw_ghost_def)
    moreover obtain nx q where "wrlock_turn t (rw_next s) (rw_rwlock s) =
        Some (Return 0, nx, (rw_rwlock s)\<lparr>rw_owner := t, rw_writer_queue := q\<rparr>)"
      "rw_rel nx ((rw_rwlock s)\<lparr>rw_writer_queue := q\<rparr>) rs (remove1 t ws)"
      using wrlock_turn_rel [OF R, of t] assms(2) free(1) by auto
    ultimately show ?thesis using ws wline by fastforce
  qed
  show ?thesis
    unfolding rline [OF R] wline [OF R] using rd wr g b by (auto simp: rw_ghost_def)
qed

theorem rwlock_no_lost_wakeup_witness:
  "\<exists>s nx w. reachable (rw_sys_init demo_enclave 0x130000) (rw_step demo_enclave 0x130000) s \<and>
     rblocked s = {0x2000} \<and> rdlock_turn 0x2000 (rw_next s) (rw_rwlock s) = Some (Return 0, nx, w)"
proof -
  have "\<exists>nx w. rdlock_turn 0x2000 (\<lambda>_. 0) (demo_rwlock 0 0x2000) = Some (Return 0, nx, w)"
    using rwlock_no_lost_wakeup [OF rw_demo_run(2), THEN conjunct1, rule_format, of "0x2000"]
    by (auto simp: demo_rwlock_def)
  then show ?thesis using rw_demo_run(2) by fastforce
qed

text \<open>
  C15. Error path of the write unlock: when readers wait and \<^verbatim>\<open>malloc\<close> fails, the call returns
  \<^verbatim>\<open>ENOMEM\<close> with the lock already released and nobody woken, so readers and writers that wait stay
  asleep in front of a free lock until some later unlock.
\<close>
theorem rwlock_wrunlock_nomem_strands_waiters:
  assumes "rw_rel nx w rs ws" "rs \<noteq> []" "rw_owner w = t" "t \<noteq> NULL" "\<not> malloc (word_of_nat (length rs) * 8)"
  shows "\<exists>w'. sgx_thread_rwlock_wrunlock malloc ocall t nx w = Some (ENOMEM, [], w') \<and>
    rw_owner w' = NULL \<and> waiting_line nx (rw_reader_queue w') = rs \<and> waiting_line nx (rw_writer_queue w') = ws"
proof -
  have "sgx_thread_rwlock_wrunlock malloc ocall t nx w = Some (ENOMEM, [], w\<lparr>rw_owner := NULL\<rparr>)"
    using wrunlock_rel [OF assms(1), of malloc ocall t] assms(2-) by auto
  then show ?thesis
    using waiting_line_eq [OF rw_relD(3) [OF assms(1)]] waiting_line_eq [OF rw_relD(4) [OF assms(1)]] by simp
qed

theorem rwlock_wrunlock_nomem_strands_waiters_witness:
  "\<exists>w'. sgx_thread_rwlock_wrunlock (\<lambda>_. False) (\<lambda>_. 0) 0x1000 (\<lambda>_. 0) (demo_rwlock 0x1000 0x2000) =
     Some (ENOMEM, [], w') \<and> rw_owner w' = NULL \<and> waiting_line (\<lambda>_. 0) (rw_reader_queue w') = [0x2000]"
proof -
  have R: "rw_rel (\<lambda>_. 0) (demo_rwlock 0x1000 0x2000) [0x2000] []" by (rule demo_rw_rel) simp
  have "rw_owner (demo_rwlock 0x1000 0x2000) = 0x1000" by (simp add: demo_rwlock_def)
  from rwlock_wrunlock_nomem_strands_waiters [OF R _ this, of "\<lambda>_. False" "\<lambda>_. 0"] show ?thesis by auto
qed

end
