(* ===== verification/Spec2Isabelle.thy ===== *)
theory Spec2Isabelle
  imports Trts_Nsp Rsrv_Mem Thread_Cond Thread_Rwlock
begin

text \<open>
  A verification of the trusted runtime of the Intel SGX SDK for Linux: the part of an enclave program that
  runs before, between and around the functions its author writes. The model follows the hardware build
  for x86-64 (not the simulation build), file by file and function by function.

  \<^bold>\<open>The program.\<close> An enclave is entered through one assembly routine, which dispatches to the initialization
  of the enclave, to an ECALL, to the return from an OCALL or to the handling of an exception. An ECALL finds
  its function in a table of the enclave's image, sets up the data of the calling thread when needed, and on
  the first call sets up the enclave itself. Code inside calls out through OCALLs, whose frames form a stack
  that the return path checks. Memory may be added and removed at run time (EDMM) inside regions that the
  metadata of the image declares; part of it is reserved memory, handed out by its own allocator. The
  synchronization objects of the thread library block by OCALLs and wake by OCALLs.

  \<^bold>\<open>Conventions.\<close> Machine integers are words of their width, pointers 64-bit words. \<^verbatim>\<open>abort()\<close> is the left
  side of a sum. A loop that need not end is a partial function into \<open>option\<close>, where \<open>None\<close> means that it does
  not return; theorems state that it returns. No definition uses fuel. Memory is a function from addresses to
  bytes; linked structures are stores of nodes with their pointer fields. Third parties are arguments: the
  processor's EACCEPT and RDRAND, OCALLs and their results, \<^verbatim>\<open>malloc\<close>, the bodies of ECALLs, the hooks of the pthread
  and allocator libraries, other threads.

  \<^bold>\<open>The theories.\<close>
  \<^item> \<open>Prelude\<close>: words, faults, status codes, page arithmetic, linked chains, reachability with the locale
    \<open>invariant_system\<close>, which the spin lock, the mutex, the condition variable and the read/write lock interpret.
  \<^item> \<open>Memory\<close>: little-endian loads and stores, fills and copies with their laws.
  \<^item> \<open>Trts_Range\<close> (\<^verbatim>\<open>sdk/trts/trts.cpp\<close>): range checks against the enclave, allocation on the untrusted stack,
    random bytes. The checks decide exactly inclusion and disjointness of byte sets; an allocation lies outside.
  \<^item> \<open>Trts_Layout\<close>, \<open>Trts_Edmm\<close> (\<^verbatim>\<open>trts_util.cpp\<close>, \<^verbatim>\<open>trts_add_trim.cpp\<close>): the layout table of the metadata, the
    sizes derived from it, the walk over its groups, acceptance, trimming and dynamic threads. Pages are
    accepted only inside dynamic regions; the recursive walk equals the documented load sequence.
  \<^item> \<open>Trts_Elf\<close>, \<open>Trts_Protect\<close> (\<^verbatim>\<open>linux/elf_parser.c\<close>, \<^verbatim>\<open>trts_emodpr.cpp\<close>, \<^verbatim>\<open>trts_trim.cpp\<close>): the ELF image, its
    relocation, page permissions.
  \<^item> \<open>Trts_Thread\<close> (\<^verbatim>\<open>trts_util.cpp\<close>, \<^verbatim>\<open>trts_ecall.cpp\<close>): thread data, stack checks, TLS, feature bits.
  \<^item> \<open>Trts_Pic\<close> (\<^verbatim>\<open>linux/trts_pic.S\<close>, \<^verbatim>\<open>trts_ocall.cpp\<close>): entry and exit, OCALLs and their return with registers
    and stack memory. Round trips of an ECALL and of an OCALL; pending OCALLs form a stack of frames.
  \<^item> \<open>Trts_Ecall\<close> (\<^verbatim>\<open>trts_ecall.cpp\<close>): dispatch, the table of TCS pages, the first ECALL, adding a thread, closing
    the enclave. A function runs exactly when the interface permits it; the table changes by transactions.
  \<^item> \<open>Trts_Nsp\<close> (\<^verbatim>\<open>trts_nsp.cpp\<close>, \<^verbatim>\<open>do_init_enclave\<close>): the C entry point that every entry goes through, and the
    initialization command. A crash is final, initialization happens once; what a failing first ECALL leaves.
  \<^item> \<open>Rsrv_Vrd\<close>, \<open>Vrd_List\<close>, \<open>Vrd_Refine\<close> (\<^verbatim>\<open>sdk/tmm_rsrv/mm_vrd.cpp\<close>): region descriptors as doubly linked nodes
    and their invariant; splitting, combining and refilling keep it and change the attributes of no address.
    Insertion, removal and change of permissions are modelled without a theorem.
  \<^item> \<open>Rsrv_Mem\<close> (\<^verbatim>\<open>sgx_rsrv_mem.cpp\<close>, \<^verbatim>\<open>mm_vrd_util.cpp\<close>, \<^verbatim>\<open>sgx_rsrv_mem_init.cpp\<close>): the functions of the allocator of
    reserved memory, modelled without a theorem of their own.
  \<^item> \<open>Spinlock\<close> (\<^verbatim>\<open>sdk/tlibc/gen/spinlock.c\<close>), \<open>Thread_Queue\<close>, \<open>Thread_Mutex\<close>, \<open>Thread_Cond\<close>, \<open>Thread_Rwlock\<close>
    (\<^verbatim>\<open>sdk/tlibthread\<close>): each object as one thread runs it and as a transition system of any number of threads.
    The locale \<open>waiter_queue\<close> is the interface of the queues, interpreted on their macros. Mutual exclusion, no
    lost wake-up, hand-over in order, refinement of an abstract mutex, and where the error paths break them.

  \<^bold>\<open>Bounds.\<close> Page counts below \<open>2 ^ 52\<close> where the code shifts them; fewer than \<open>2 ^ 32\<close> region descriptors, the
  width of the counter of the free list; regions that end below \<open>2 ^ 64\<close>. Each is a hypothesis where it is used.

  \<^bold>\<open>Not modelled.\<close> The body of \<^verbatim>\<open>init_enclave\<close> and exception handling (\<^verbatim>\<open>trts_veh.cpp\<close>), which are arguments of the
  entry point; EFLAGS, the contents of the extended register area and
  the leaf functions EREPORT and EGETKEY; the simulation build; weak-memory effects other than the exchange of
  the spin lock. Outside the runtime: sealing and key exchange, whose content is cryptography; the C and C++
  libraries and other third-party code; the untrusted runtime, the services and the tools, which an enclave does
  not trust.
\<close>

end
